theory Spec2Isabelle
  imports
    Complex_Main
    "HOL-Library.Char_ord"
    "HOL-Library.List_Lexorder"
    "HOL-Library.Monad_Syntax"
    "HOL-Library.Product_Lexorder"
    "HOL-Library.Sublist"
begin

section \<open>Performance portability: the function \<open>pp\<close> of \<open>p3/metrics/_pp.py\<close>\<close>

text \<open>
  \<open>pp\<close> takes a pandas DataFrame of measured efficiencies and returns one
  performance-portability value per (problem, application) pair. The embedding keeps
  the stages of the source: the checks of lines 68-84, the first-occurrence order of
  the applications (line 86), the grouped maximum (lines 88-92), the completion of the
  cross-product (lines 94-116), the grouped harmonic mean (lines 118-127) and the final
  sort (line 130).

  The operations of pandas are modelled by their contract: \<open>groupby\<close> forms one group
  per distinct key, the keys sorted; \<open>agg\<close> gives one row per group, holding the
  key and the reduced columns; \<open>unique\<close> keeps the order of first occurrence;
  \<open>concat\<close> appends rows and fills a column that a row lacks with null. The
  contract leaves open what the library does with a frame that has no rows, so the
  theorems below promise a result only for a table with at least one row.

  \<open>pp\<close> is given twice: as a function from the table to its result or exception, and
  (\<open>pp_run\<close>) as a run on a heap of objects, which says what a call changes.
\<close>

subsection \<open>Data model\<close>

text \<open>
  A cell of an efficiency column is null (\<open>None\<close>/\<open>NaN\<close>), a number, or some other
  value (for example a string that is not a number). Numbers are modelled as reals:
  every Python float is one, and \<open>statistics.harmonic_mean\<close> sums exactly
  (as fractions); the roundings of \<open>1 / x\<close> and of the final quotient are not modelled.
\<close>

datatype cell = Null | Num real | Other string

text \<open>
  A row carries the labels of the three key columns and the cells of the two efficiency
  columns. The DataFrame lists the names of the columns it has; the field of a column
  that the frame does not have is never read (the checks of lines 68-79 come first).
  Labels are strings, ordered as Python orders them (by code point, which is the
  bytewise order of their UTF-8 encoding).
\<close>

record row =
  problem :: string
  platform :: string
  application :: string
  app_eff :: cell
  arch_eff :: cell

record dataframe =
  columns :: "string list"
  rows :: "row list"

text \<open>The two efficiency columns, their names and the names of the columns derived from them.\<close>

datatype eff = AppEff | ArchEff

fun eff_name :: "eff \<Rightarrow> string" where
  "eff_name AppEff = ''app eff''"
| "eff_name ArchEff = ''arch eff''"

text \<open>Line 125: \<open>eff.replace("eff", "pp")\<close>.\<close>

fun pp_name :: "eff \<Rightarrow> string" where
  "pp_name AppEff = ''app pp''"
| "pp_name ArchEff = ''arch pp''"

fun cell_of :: "eff \<Rightarrow> row \<Rightarrow> cell" where
  "cell_of AppEff r = app_eff r"
| "cell_of ArchEff r = arch_eff r"

text \<open>
  What the call can raise. \<open>ValueError\<close> carries the message of the source
  (lines 77 and 84); \<open>StatisticsError\<close> is the exception of \<open>statistics.harmonic_mean\<close>.
  The two helpers \<open>_require_columns\<close> and \<open>_require_numeric\<close> of \<open>p3._utils\<close>
  raise the kinds the specification names for them.
\<close>

datatype error =
    MissingColumnError "string list"
  | NonNumericValueError string
  | ValueError string
  | StatisticsError string

text \<open>
  After the checks the source works on \<open>df[key + efficiencies]\<close>: a row of the working
  frame is its key and a dictionary from efficiency column to value, where \<open>None\<close>
  is null. A column that a row does not have reads as null, as \<open>pd.concat\<close> fills it.
\<close>

type_synonym key3 = "string \<times> string \<times> string"
type_synonym erow = "key3 \<times> (eff \<times> real option) list"

text \<open>The result: the names of its columns, and per row the key and the values by column name.\<close>

type_synonym key2 = "string \<times> string"
type_synonym pprow = "key2 \<times> (string \<times> real) list"

record ppframe =
  pp_columns :: "string list"
  pp_rows :: "pprow list"

subsection \<open>Helpers of \<open>p3._utils\<close>\<close>

text \<open>
  Modelled from the spec: \<open>_require_columns\<close> is not among the sources. Section 4.1:
  "confirm columns problem, platform, application exist - fails with a
  MissingColumnError kind otherwise". The error carries the required columns that are
  absent.
\<close>

definition require_columns :: "dataframe \<Rightarrow> string list \<Rightarrow> error + unit" where
  "require_columns df cols =
     (let missing = filter (\<lambda>c. c \<notin> set (columns df)) cols
      in if missing = [] then Inr () else Inl (MissingColumnError missing))"

text \<open>
  Modelled from the spec: \<open>_require_numeric\<close> is not among the sources. Section 4.1:
  "For each efficiency column present, confirm every non-null value is numeric - fails
  with a NonNumericValueError kind naming the offending column if not".
\<close>

fun is_numeric :: "cell \<Rightarrow> bool" where
  "is_numeric Null = True"
| "is_numeric (Num v) = True"
| "is_numeric (Other s) = False"

fun require_numeric :: "dataframe \<Rightarrow> eff list \<Rightarrow> error + unit" where
  "require_numeric df [] = Inr ()"
| "require_numeric df (e # es) =
     (if list_all (\<lambda>r. is_numeric (cell_of e r)) (rows df) then require_numeric df es
      else Inl (NonNumericValueError (eff_name e)))"

text \<open>
  Modelled from the spec: \<open>_sort_by_app_order\<close> is not among the sources. Section 4.5:
  "reorder/stable-sort the final (problem, application)-keyed result so that rows are
  grouped and ordered by that application sequence". The sort key of a row is the
  position of its application in the captured order; the sort is stable.
\<close>

definition index_of :: "'a list \<Rightarrow> 'a \<Rightarrow> nat" where
  "index_of xs x = length (takeWhile (\<lambda>y. y \<noteq> x) xs)"

definition sort_by_app_order :: "pprow list \<Rightarrow> string list \<Rightarrow> pprow list" where
  "sort_by_app_order rs app_order = sort_key (\<lambda>r. index_of app_order (snd (fst r))) rs"

subsection \<open>The checks (lines 68-84)\<close>

text \<open>Lines 71-75: the efficiency columns the frame has, \<open>app eff\<close> first.\<close>

definition efficiencies :: "dataframe \<Rightarrow> eff list" where
  "efficiencies df =
     (if ''app eff'' \<in> set (columns df) then [AppEff] else []) @
     (if ''arch eff'' \<in> set (columns df) then [ArchEff] else [])"

definition missing_efficiency_msg :: string where
  "missing_efficiency_msg =
     ''DataFrame must contain a column named '' @ [CHR 0x27] @ ''arch eff'' @ [CHR 0x27] @
     '' or '' @ [CHR 0x27] @ ''app eff'' @ [CHR 0x27] @ ''.''"

text \<open>Line 83: \<open>fillna(0)\<close> and \<open>between(0, 1)\<close>, which includes both ends.\<close>

fun fillna :: "real \<Rightarrow> cell \<Rightarrow> cell" where
  "fillna d Null = Num d"
| "fillna d c = c"

text \<open>
  A cell that is not a number is never compared: \<open>require_numeric\<close> has rejected
  its column before.
\<close>

fun between :: "real \<Rightarrow> real \<Rightarrow> cell \<Rightarrow> bool" where
  "between lo hi (Num v) = (lo \<le> v \<and> v \<le> hi)"
| "between lo hi c = False"

fun check_range :: "dataframe \<Rightarrow> eff list \<Rightarrow> error + unit" where
  "check_range df [] = Inr ()"
| "check_range df (e # es) =
     (if \<not> list_all (\<lambda>r. between 0 1 (fillna 0 (cell_of e r))) (rows df)
      then Inl (ValueError (eff_name e @ '' must in range [0, 1]''))
      else check_range df es)"

subsection \<open>First-occurrence order (line 86)\<close>

text \<open>\<open>Series.unique()\<close>: the distinct values in the order of their first occurrence.\<close>

definition unique :: "'a list \<Rightarrow> 'a list" where
  "unique xs = rev (remdups (rev xs))"

subsection \<open>Grouped maximum (lines 88-92)\<close>

definition key3_of :: "row \<Rightarrow> key3" where
  "key3_of r = (problem r, platform r, application r)"

text \<open>
  The value of a cell as a float or null. The cells are those of a checked column, so
  none of them is a value that is not a number.
\<close>

fun to_float :: "cell \<Rightarrow> real option" where
  "to_float (Num v) = Some v"
| "to_float c = None"

text \<open>The maximum of a group skips nulls; it is null when the group has nothing else.\<close>

fun omax :: "real option \<Rightarrow> real option \<Rightarrow> real option" where
  "omax None y = y"
| "omax (Some a) None = Some a"
| "omax (Some a) (Some b) = Some (max a b)"

definition nanmax :: "real option list \<Rightarrow> real option" where
  "nanmax vs = foldr omax vs None"

text \<open>
  \<open>df[key + efficiencies].groupby(key).agg("max")\<close> and \<open>reset_index\<close>: one row per
  distinct key, the keys sorted, each efficiency column reduced by the maximum.
\<close>

definition groupby_max :: "eff list \<Rightarrow> row list \<Rightarrow> erow list" where
  "groupby_max effs rs =
     map (\<lambda>k. (k, map (\<lambda>e. (e, nanmax (map (\<lambda>r. to_float (cell_of e r))
                                      (filter (\<lambda>r. key3_of r = k) rs)))) effs))
         (sort (remdups (map key3_of rs)))"

subsection \<open>Completion of the cross-product (lines 94-116)\<close>

text \<open>
  Lines 97-98: the distinct problems, platforms and applications of the reduced frame
  and their product, the application varying fastest.
\<close>

definition combinations :: "erow list \<Rightarrow> key3 list" where
  "combinations t =
     List.product (unique (map (\<lambda>r. fst (fst r)) t))
       (List.product (unique (map (\<lambda>r. fst (snd (fst r))) t))
                     (unique (map (\<lambda>r. snd (snd (fst r))) t)))"

text \<open>
  Lines 100-116: a combination with no row gets one whose efficiencies are null
  (the column \<open>fom\<close> of the synthesized rows is never read afterwards).
\<close>

definition did_not_run :: "key3 \<Rightarrow> erow" where
  "did_not_run k = (k, [(ArchEff, None), (AppEff, None)])"

definition add_did_not_run :: "erow list \<Rightarrow> erow list" where
  "add_did_not_run t =
     t @ map did_not_run (filter (\<lambda>k. filter (\<lambda>r. fst r = k) t = []) (combinations t))"

subsection \<open>Harmonic mean (lines 12-19)\<close>

text \<open>
  \<open>statistics.harmonic_mean\<close> of the Python standard library, for unweighted data.
  It reads the data in order: a negative value raises, a zero makes \<open>1 / x\<close> raise
  \<open>ZeroDivisionError\<close>, which it catches to return 0; whichever comes first decides.
\<close>

datatype stop = Negative | ZeroDivision

fun reciprocals :: "real list \<Rightarrow> stop + real list" where
  "reciprocals [] = Inr []"
| "reciprocals (x # xs) =
     (if x < 0 then Inl Negative
      else if x = 0 then Inl ZeroDivision
      else case reciprocals xs of Inl s \<Rightarrow> Inl s | Inr ys \<Rightarrow> Inr (1 / x # ys))"

definition negative_msg :: string where
  "negative_msg = ''harmonic mean does not support negative values''"

definition harmonic_mean :: "real list \<Rightarrow> error + real" where
  "harmonic_mean data =
     (let n = length data in
      if n < 1 then Inl (StatisticsError ''harmonic_mean requires at least one data point'')
      else if n = 1 then
        (let x = hd data in if x < 0 then Inl (StatisticsError negative_msg) else Inr x)
      else case reciprocals data of
             Inl Negative \<Rightarrow> Inl (StatisticsError negative_msg)
           | Inl ZeroDivision \<Rightarrow> Inr 0
           | Inr ys \<Rightarrow>
               (let total = sum_list ys in
                if total \<le> 0 then Inl (StatisticsError ''Weighted sum must be positive'')
                else Inr (real n / total)))"

definition hmean :: "real list \<Rightarrow> error + real" where
  "hmean series = harmonic_mean series"

subsection \<open>Grouped harmonic mean (lines 118-127)\<close>

text \<open>Line 120: \<open>astype(float).fillna(0.0)\<close> on the efficiency columns.\<close>

definition value_of :: "eff \<Rightarrow> erow \<Rightarrow> real" where
  "value_of e r = (case map_of (snd r) e of Some (Some v) \<Rightarrow> v | _ \<Rightarrow> 0)"

definition key2_of :: "erow \<Rightarrow> key2" where
  "key2_of r = (fst (fst r), snd (snd (fst r)))"

text \<open>The first exception raised while a list of results is computed, or all the results.\<close>

fun collect :: "('e + 'a) list \<Rightarrow> 'e + 'a list" where
  "collect [] = Inr []"
| "collect (Inl e # xs) = Inl e"
| "collect (Inr a # xs) = (case collect xs of Inl e \<Rightarrow> Inl e | Inr as \<Rightarrow> Inr (a # as))"

text \<open>
  Lines 121-127: one row per distinct (problem, application), the keys sorted; each
  efficiency column is reduced by \<open>_hmean\<close> over the rows of the group, in the order of
  the frame, and renamed.
\<close>

definition pp_row :: "eff list \<Rightarrow> erow list \<Rightarrow> key2 \<Rightarrow> error + pprow" where
  "pp_row effs t k =
     (case collect (map (\<lambda>e. case hmean (map (value_of e) (filter (\<lambda>r. key2_of r = k) t)) of
                               Inl x \<Rightarrow> Inl x
                             | Inr v \<Rightarrow> Inr (pp_name e, v)) effs) of
        Inl x \<Rightarrow> Inl x
      | Inr vs \<Rightarrow> Inr (k, vs))"

definition groupby_hmean :: "eff list \<Rightarrow> erow list \<Rightarrow> error + pprow list" where
  "groupby_hmean effs t = collect (map (pp_row effs t) (sort (remdups (map key2_of t))))"

subsection \<open>The function \<open>pp\<close> (lines 22-132)\<close>

definition pp :: "dataframe \<Rightarrow> error + ppframe" where
  "pp df =
     (case require_columns df [''problem'', ''platform'', ''application''] of
        Inl x \<Rightarrow> Inl x
      | Inr _ \<Rightarrow>
          (let effs = efficiencies df in
           if length effs = 0 then Inl (ValueError missing_efficiency_msg)
           else case require_numeric df effs of
             Inl x \<Rightarrow> Inl x
           | Inr _ \<Rightarrow>
               (case check_range df effs of
                  Inl x \<Rightarrow> Inl x
                | Inr _ \<Rightarrow>
                    (let app_order = unique (map application (rows df));
                         t = add_did_not_run (groupby_max effs (rows df))
                     in case groupby_hmean effs t of
                          Inl x \<Rightarrow> Inl x
                        | Inr ps \<Rightarrow>
                            Inr \<lparr>pp_columns = [''problem'', ''application''] @ map pp_name effs,
                                 pp_rows = sort_by_app_order ps app_order\<rparr>))))"

section \<open>The properties\<close>

subsection \<open>Valid input tables\<close>

text \<open>
  The four conditions of section 4.1 of the specification, stated on the table: the key
  columns exist; an efficiency column exists; an efficiency column that exists holds a
  value that is neither null nor a number; it holds a number outside [0, 1].
\<close>

definition has_key_columns :: "dataframe \<Rightarrow> bool" where
  "has_key_columns df \<longleftrightarrow>
     ''problem'' \<in> set (columns df) \<and> ''platform'' \<in> set (columns df) \<and>
     ''application'' \<in> set (columns df)"

definition has_efficiency :: "dataframe \<Rightarrow> bool" where
  "has_efficiency df \<longleftrightarrow> ''app eff'' \<in> set (columns df) \<or> ''arch eff'' \<in> set (columns df)"

definition non_numeric :: "dataframe \<Rightarrow> eff \<Rightarrow> bool" where
  "non_numeric df e \<longleftrightarrow>
     eff_name e \<in> set (columns df) \<and>
     list_ex (\<lambda>r. case cell_of e r of Other s \<Rightarrow> True | _ \<Rightarrow> False) (rows df)"

definition out_of_range :: "dataframe \<Rightarrow> eff \<Rightarrow> bool" where
  "out_of_range df e \<longleftrightarrow>
     eff_name e \<in> set (columns df) \<and>
     list_ex (\<lambda>r. case cell_of e r of Num v \<Rightarrow> v < 0 \<or> 1 < v | _ \<Rightarrow> False) (rows df)"

text \<open>A valid input table passes the four checks.\<close>

definition valid_table :: "dataframe \<Rightarrow> bool" where
  "valid_table df \<longleftrightarrow>
     has_key_columns df \<and> has_efficiency df \<and>
     \<not> non_numeric df AppEff \<and> \<not> non_numeric df ArchEff \<and>
     \<not> out_of_range df AppEff \<and> \<not> out_of_range df ArchEff"

text \<open>What a cell of an efficiency column of a valid table is: null, or a number of [0, 1].\<close>

fun valid_cell :: "cell \<Rightarrow> bool" where
  "valid_cell Null = True"
| "valid_cell (Num v) = (0 \<le> v \<and> v \<le> 1)"
| "valid_cell (Other s) = False"

subsection \<open>Measured efficiencies of a key\<close>

text \<open>
  \<open>v\<close> is the maximum efficiency observed for a key: some row of the key has it, and
  no row of the key has a larger number.
\<close>

definition max_of_key :: "eff \<Rightarrow> key3 \<Rightarrow> row list \<Rightarrow> real \<Rightarrow> bool" where
  "max_of_key e k rs v \<longleftrightarrow>
     list_ex (\<lambda>r. key3_of r = k \<and> cell_of e r = Num v) rs \<and>
     list_all (\<lambda>r. key3_of r = k \<longrightarrow> (case cell_of e r of Num w \<Rightarrow> w \<le> v | _ \<Rightarrow> True)) rs"

text \<open>Every row of the key is null in the column.\<close>

definition all_null :: "eff \<Rightarrow> key3 \<Rightarrow> row list \<Rightarrow> bool" where
  "all_null e k rs \<longleftrightarrow> list_all (\<lambda>r. key3_of r = k \<longrightarrow> cell_of e r = Null) rs"

text \<open>
  Zero efficiency, or never ran: every row of the key (there may be none) is null or 0
  in the column.
\<close>

definition zero_or_absent :: "eff \<Rightarrow> key3 \<Rightarrow> row list \<Rightarrow> bool" where
  "zero_or_absent e k rs \<longleftrightarrow>
     list_all (\<lambda>r. key3_of r = k \<longrightarrow> cell_of e r = Null \<or> cell_of e r = Num 0) rs"

text \<open>The (problem, application) pair of a row, and the platforms a pair was measured on.\<close>

definition pair_of :: "row \<Rightarrow> key2" where
  "pair_of r = (problem r, application r)"

definition platforms_of :: "key2 \<Rightarrow> row list \<Rightarrow> string list" where
  "platforms_of k rs = unique (map platform (filter (\<lambda>r. pair_of r = k) rs))"

text \<open>The applications of the rows of a result, in order.\<close>

definition applications_of :: "ppframe \<Rightarrow> string list" where
  "applications_of out = map (\<lambda>r. snd (fst r)) (pp_rows out)"

text \<open>The frame of line 116 and the values of one group of line 121.\<close>

abbreviation completed :: "dataframe \<Rightarrow> erow list" where
  "completed df \<equiv> add_did_not_run (groupby_max (efficiencies df) (rows df))"

abbreviation group_values :: "eff \<Rightarrow> key2 \<Rightarrow> erow list \<Rightarrow> real list" where
  "group_values e k t \<equiv> map (value_of e) (filter (\<lambda>r. key2_of r = k) t)"

subsection \<open>Example tables\<close>

definition mk_row :: "string \<Rightarrow> string \<Rightarrow> string \<Rightarrow> cell \<Rightarrow> cell \<Rightarrow> row" where
  "mk_row p h a app arch =
     \<lparr>problem = p, platform = h, application = a, app_eff = app, arch_eff = arch\<rparr>"

definition key_columns :: "string list" where
  "key_columns = [''problem'', ''platform'', ''application'']"

text \<open>X has efficiency 0 on platform B; Y never ran on B.\<close>

definition zero_table :: dataframe where
  "zero_table = \<lparr>columns = key_columns @ [''app eff'', ''arch eff''],
     rows = [mk_row ''P1'' ''A'' ''X'' (Num (1/2)) (Num (1/4)),
             mk_row ''P1'' ''B'' ''X'' (Num 0) Null,
             mk_row ''P1'' ''A'' ''Y'' (Num 1) (Num 1)]\<rparr>"

text \<open>Two problems, each solved by another application, on one platform.\<close>

definition crossed_table :: dataframe where
  "crossed_table = \<lparr>columns = key_columns @ [''app eff''],
     rows = [mk_row ''P1'' ''A'' ''X'' (Num 1) Null,
             mk_row ''P2'' ''A'' ''Y'' (Num (1/2)) Null]\<rparr>"

definition crossed_result :: ppframe where
  "crossed_result = \<lparr>pp_columns = [''problem'', ''application'', ''app pp''],
     pp_rows = [((''P1'', ''X''), [(''app pp'', 1)]),
                ((''P2'', ''X''), [(''app pp'', 0)]),
                ((''P1'', ''Y''), [(''app pp'', 0)]),
                ((''P2'', ''Y''), [(''app pp'', 1/2)])]\<rparr>"

text \<open>X was measured on platform A only, Y on platform B only.\<close>

definition ragged_table :: dataframe where
  "ragged_table = \<lparr>columns = key_columns @ [''app eff''],
     rows = [mk_row ''P1'' ''A'' ''X'' (Num 1) Null,
             mk_row ''P1'' ''B'' ''Y'' (Num (1/2)) Null]\<rparr>"

definition ragged_result :: ppframe where
  "ragged_result = \<lparr>pp_columns = [''problem'', ''application'', ''app pp''],
     pp_rows = [((''P1'', ''X''), [(''app pp'', 0)]),
                ((''P1'', ''Y''), [(''app pp'', 0)])]\<rparr>"

text \<open>One platform; X was measured twice, Y has no value.\<close>

definition single_table :: dataframe where
  "single_table = \<lparr>columns = key_columns @ [''app eff''],
     rows = [mk_row ''P1'' ''A'' ''X'' (Num (4/10)) Null,
             mk_row ''P1'' ''A'' ''X'' (Num (6/10)) Null,
             mk_row ''P1'' ''A'' ''Y'' Null Null]\<rparr>"

text \<open>The applications first occur in the order Y, X.\<close>

definition order_table :: dataframe where
  "order_table = \<lparr>columns = key_columns @ [''app eff''],
     rows = [mk_row ''P2'' ''B'' ''Y'' (Num (1/2)) Null,
             mk_row ''P1'' ''A'' ''X'' (Num 1) Null,
             mk_row ''P1'' ''B'' ''Y'' (Num 1) Null]\<rparr>"

text \<open>Tables that fail a check; the first two fail several.\<close>

definition no_platform_table :: dataframe where
  "no_platform_table = \<lparr>columns = [''problem'', ''application''],
     rows = [mk_row ''P1'' [] ''X'' Null Null]\<rparr>"

definition no_efficiency_table :: dataframe where
  "no_efficiency_table = \<lparr>columns = key_columns @ [''fom''],
     rows = [mk_row ''P1'' ''A'' ''X'' Null Null]\<rparr>"

definition non_numeric_table :: dataframe where
  "non_numeric_table = \<lparr>columns = key_columns @ [''app eff'', ''arch eff''],
     rows = [mk_row ''P1'' ''A'' ''X'' (Num (3/2)) (Other ''fast'')]\<rparr>"

definition percent_table :: dataframe where
  "percent_table = \<lparr>columns = key_columns @ [''app eff'', ''arch eff''],
     rows = [mk_row ''P1'' ''A'' ''X'' (Num (1/2)) (Num 50)]\<rparr>"

text \<open>Null and the two ends of the interval.\<close>

definition boundary_table :: dataframe where
  "boundary_table = \<lparr>columns = key_columns @ [''app eff''],
     rows = [mk_row ''P1'' ''A'' ''X'' Null Null,
             mk_row ''P1'' ''B'' ''X'' (Num 0) Null,
             mk_row ''P1'' ''C'' ''X'' (Num 1) Null]\<rparr>"

subsection \<open>The call on the heap\<close>

text \<open>
  The frames of a run are objects: the caller's DataFrame, and the frames that \<open>pp\<close>
  creates. A name of the source holds the address of an object; an operation with
  \<open>inplace=True\<close> and an assignment to columns change the object at the address, every
  other operation of the source that gives a frame creates a new object.

  A working frame holds its key either in the index (as \<open>groupby(...).agg\<close> returns
  it) or in columns (after \<open>reset_index\<close>).
\<close>

datatype place = Index | Columns

datatype frame =
    Table dataframe
  | Keyed place "erow list"
  | Values place "string list" "pprow list"

text \<open>The heap is the list of the objects created so far; an address is a position in it.\<close>

type_synonym store = "frame list"

definition lookup :: "store \<Rightarrow> nat \<Rightarrow> frame option" where
  "lookup s b = (if b < length s then Some (s ! b) else None)"

definition alloc :: "store \<Rightarrow> frame \<Rightarrow> nat \<times> store" where
  "alloc s fr = (length s, s @ [fr])"

definition put :: "store \<Rightarrow> nat \<Rightarrow> frame \<Rightarrow> store" where
  "put s b fr = s[b := fr]"

text \<open>
  Reading a frame through a name. The columns of the key are read by name (lines 97-104
  and 119-121), which needs the key in columns. \<open>None\<close> is an access that the object
  at the address does not support.
\<close>

definition table_at :: "store \<Rightarrow> nat \<Rightarrow> dataframe option" where
  "table_at s a = (case lookup s a of Some (Table df) \<Rightarrow> Some df | _ \<Rightarrow> None)"

definition keyed_at :: "store \<Rightarrow> nat \<Rightarrow> erow list option" where
  "keyed_at s b = (case lookup s b of Some (Keyed Columns t) \<Rightarrow> Some t | _ \<Rightarrow> None)"

text \<open>Lines 92 and 123: \<open>reset_index(inplace=True)\<close> moves the key of the object into columns.\<close>

definition reset_index :: "store \<Rightarrow> nat \<Rightarrow> store option" where
  "reset_index s b =
     (case lookup s b of
        Some (Keyed Index t) \<Rightarrow> Some (put s b (Keyed Columns t))
      | Some (Values Index cols vs) \<Rightarrow>
          Some (put s b (Values Columns ([''problem'', ''application''] @ cols) vs))
      | _ \<Rightarrow> None)"

text \<open>Line 120: the efficiency columns of the object are assigned their filled values.\<close>

definition fillna_row :: "eff list \<Rightarrow> erow \<Rightarrow> erow" where
  "fillna_row effs r =
     (fst r, map (\<lambda>(e, v). (e, if e \<in> set effs then Some (case v of None \<Rightarrow> 0 | Some x \<Rightarrow> x) else v))
               (snd r))"

definition fill_efficiencies :: "store \<Rightarrow> nat \<Rightarrow> eff list \<Rightarrow> store option" where
  "fill_efficiencies s c effs =
     (case keyed_at s c of
        Some t \<Rightarrow> Some (put s c (Keyed Columns (map (fillna_row effs) t)))
      | None \<Rightarrow> None)"

text \<open>
  Lines 121-122: \<open>groupby(key).agg(_hmean)\<close>, one row per distinct (problem,
  application), the columns still named as the efficiency columns.
\<close>

definition agg_hmean :: "eff list \<Rightarrow> erow list \<Rightarrow> error + pprow list" where
  "agg_hmean effs t =
     collect (map (\<lambda>k.
        case collect (map (\<lambda>e. case hmean (map (value_of e) (filter (\<lambda>r. key2_of r = k) t)) of
                                  Inl x \<Rightarrow> Inl x
                                | Inr v \<Rightarrow> Inr (eff_name e, v)) effs) of
          Inl x \<Rightarrow> Inl x
        | Inr vs \<Rightarrow> Inr (k, vs))
       (sort (remdups (map key2_of t))))"

text \<open>
  Lines 124-127, once per efficiency column: \<open>rename(..., inplace=True)\<close> changes the
  object, \<open>astype\<close> gives a new one with the same values (they are floats already),
  and the name \<open>pp\<close> moves to it.
\<close>

definition rename_name :: "string \<Rightarrow> string \<Rightarrow> string \<Rightarrow> string" where
  "rename_name old new n = (if n = old then new else n)"

definition rename_row :: "string \<Rightarrow> string \<Rightarrow> pprow \<Rightarrow> pprow" where
  "rename_row old new r = (fst r, map (\<lambda>(n, v). (rename_name old new n, v)) (snd r))"

fun rename_columns :: "store \<Rightarrow> nat \<Rightarrow> eff list \<Rightarrow> (nat \<times> store) option" where
  "rename_columns s d [] = Some (d, s)"
| "rename_columns s d (e # es) =
     (case lookup s d of
        Some (Values Columns cols vs) \<Rightarrow>
          (let s1 = put s d (Values Columns (map (rename_name (eff_name e) (pp_name e)) cols)
                                            (map (rename_row (eff_name e) (pp_name e)) vs))
           in case lookup s1 d of
                Some fr \<Rightarrow> (let (d', s2) = alloc s1 fr in rename_columns s2 d' es)
              | None \<Rightarrow> None)
      | _ \<Rightarrow> None)"

text \<open>
  Modelled from the spec: \<open>_sort_by_app_order\<close> (line 130) is not among the sources.
  Section 3: "the output is freshly constructed". The sorted frame is a new object.
\<close>

definition sort_frame :: "store \<Rightarrow> nat \<Rightarrow> string list \<Rightarrow> (nat \<times> store) option" where
  "sort_frame s d app_order =
     (case lookup s d of
        Some (Values Columns cols vs) \<Rightarrow>
          Some (alloc s (Values Columns cols (sort_by_app_order vs app_order)))
      | _ \<Rightarrow> None)"

text \<open>
  The call \<open>pp(df)\<close> with \<open>df\<close> the object at address \<open>a\<close>: the heap after the call and
  the exception raised or the address of the frame returned. The checks and lines
  86-90 only read the object (the helpers of \<open>p3._utils\<close> are pure checks by section
  4.1 of the specification; \<open>fillna\<close>, \<open>between\<close>, \<open>unique\<close>, the selection of
  columns and \<open>groupby\<close> create objects that no name keeps).
\<close>

definition pp_run :: "store \<Rightarrow> nat \<Rightarrow> (store \<times> (error + nat)) option" where
  "pp_run s a = do {
     df \<leftarrow> table_at s a;
     case require_columns df [''problem'', ''platform'', ''application''] of
       Inl x \<Rightarrow> Some (s, Inl x)
     | Inr _ \<Rightarrow>
         (let effs = efficiencies df in
          if length effs = 0 then Some (s, Inl (ValueError missing_efficiency_msg))
          else case require_numeric df effs of
            Inl x \<Rightarrow> Some (s, Inl x)
          | Inr _ \<Rightarrow>
              (case check_range df effs of
                 Inl x \<Rightarrow> Some (s, Inl x)
               | Inr _ \<Rightarrow> do {
                   let app_order = unique (map application (rows df));
                   let (b, s1) = alloc s (Keyed Index (groupby_max effs (rows df)));
                   s2 \<leftarrow> reset_index s1 b;
                   t \<leftarrow> keyed_at s2 b;
                   let (c, s3) = alloc s2 (Keyed Columns (add_did_not_run t));
                   s4 \<leftarrow> fill_efficiencies s3 c effs;
                   t' \<leftarrow> keyed_at s4 c;
                   case agg_hmean effs t' of
                     Inl x \<Rightarrow> Some (s4, Inl x)
                   | Inr vs \<Rightarrow> do {
                       let (d, s5) = alloc s4 (Values Index (map eff_name effs) vs);
                       s6 \<leftarrow> reset_index s5 d;
                       (d', s7) \<leftarrow> rename_columns s6 d effs;
                       (f, s8) \<leftarrow> sort_frame s7 d' app_order;
                       Some (s8, Inr f)
                     }
                 }))
   }"

text \<open>What the caller sees of a run: the exception, or the frame at the address returned.\<close>

definition outcome :: "store \<Rightarrow> error + nat \<Rightarrow> error + frame option" where
  "outcome s r = (case r of Inl x \<Rightarrow> Inl x | Inr f \<Rightarrow> Inr (lookup s f))"

definition frame_of :: "ppframe \<Rightarrow> frame" where
  "frame_of out = Values Columns (pp_columns out) (pp_rows out)"

text \<open>The aggregate of a valid table, under the names \<open>nm\<close> of its columns.\<close>

abbreviation hm_rows :: "(eff \<Rightarrow> string) \<Rightarrow> dataframe \<Rightarrow> pprow list" where
  "hm_rows nm df \<equiv>
     map (\<lambda>k. (k, map (\<lambda>e. (nm e, projr (hmean (group_values e k (completed df)))))
                     (efficiencies df)))
         (sort (remdups (map key2_of (completed df))))"

text \<open>A heap with two tables.\<close>

definition two_tables :: store where
  "two_tables = [Table ragged_table, Table crossed_table]"

section \<open>Lemmas\<close>

subsection \<open>The checks and the harmonic mean\<close>

lemma efficiencies_iff: "e \<in> set (efficiencies df) \<longleftrightarrow> eff_name e \<in> set (columns df)"
  by (cases e) (auto simp: efficiencies_def)

lemma require_columns_Inr:
  "require_columns df cols = Inr u \<longleftrightarrow> set cols \<subseteq> set (columns df)"
  by (auto simp: require_columns_def Let_def filter_empty_conv)

lemma require_numeric_Inr:
  "require_numeric df es = Inr u \<longleftrightarrow> (\<forall>e\<in>set es. \<forall>r\<in>set (rows df). is_numeric (cell_of e r))"
  by (induction es) (auto simp: list_all_iff)

lemma require_numeric_Inl:
  "require_numeric df es = Inl x \<Longrightarrow>
     \<exists>e\<in>set es. x = NonNumericValueError (eff_name e) \<and> (\<exists>r\<in>set (rows df). \<not> is_numeric (cell_of e r))"
  by (induction es) (auto simp: list_all_iff split: if_splits)

lemma check_range_Inr:
  "check_range df es = Inr u \<longleftrightarrow> (\<forall>e\<in>set es. \<forall>r\<in>set (rows df). between 0 1 (fillna 0 (cell_of e r)))"
  by (induction es) (auto simp: list_all_iff)

lemma check_range_Inl:
  "check_range df es = Inl x \<Longrightarrow>
     \<exists>e\<in>set es. x = ValueError (eff_name e @ '' must in range [0, 1]'') \<and>
        (\<exists>r\<in>set (rows df). \<not> between 0 1 (fillna 0 (cell_of e r)))"
  by (induction es) (auto simp: list_all_iff split: if_splits)

lemma valid_cell_iff: "valid_cell c \<longleftrightarrow> is_numeric c \<and> between 0 1 (fillna 0 c)"
  by (cases c) auto

lemma valid_table_cells:
  assumes "valid_table df" "e \<in> set (efficiencies df)" "r \<in> set (rows df)"
  shows "valid_cell (cell_of e r)"
proof -
  from assms(2) have "eff_name e \<in> set (columns df)" by (simp add: efficiencies_iff)
  with assms(1) have "\<not> non_numeric df e" "\<not> out_of_range df e"
    by (cases e; simp add: valid_table_def)+
  with \<open>eff_name e \<in> set (columns df)\<close> assms(3) show ?thesis
    by (cases "cell_of e r") (auto simp: non_numeric_def out_of_range_def list_ex_iff not_less)
qed

lemma valid_table_checks:
  assumes "valid_table df"
  shows "require_columns df [''problem'', ''platform'', ''application''] = Inr ()"
    and "efficiencies df \<noteq> []"
    and "require_numeric df (efficiencies df) = Inr ()"
    and "check_range df (efficiencies df) = Inr ()"
proof -
  show "require_columns df [''problem'', ''platform'', ''application''] = Inr ()"
    using assms by (simp add: require_columns_Inr valid_table_def has_key_columns_def)
  show "efficiencies df \<noteq> []"
    using assms by (auto simp: valid_table_def has_efficiency_def efficiencies_def)
  show "require_numeric df (efficiencies df) = Inr ()"
    using valid_table_cells[OF assms] by (simp add: require_numeric_Inr valid_cell_iff)
  show "check_range df (efficiencies df) = Inr ()"
    using valid_table_cells[OF assms] by (simp add: check_range_Inr valid_cell_iff)
qed

lemma reciprocals_Inr:
  "\<forall>x\<in>set xs. 0 < x \<Longrightarrow> reciprocals xs = Inr (map (\<lambda>x. 1 / x) xs)"
  by (induction xs) auto

lemma reciprocals_zero:
  "\<forall>x\<in>set xs. 0 \<le> x \<Longrightarrow> 0 \<in> set xs \<Longrightarrow> reciprocals xs = Inl ZeroDivision"
  by (induction xs) (auto split: sum.splits)

lemma sum_list_pos: "xs \<noteq> [] \<Longrightarrow> \<forall>x\<in>set xs. 0 < (x::real) \<Longrightarrow> 0 < sum_list xs"
  by (induction xs) (auto simp: add_pos_nonneg sum_list_nonneg less_imp_le)

lemma hmean_single: "0 \<le> x \<Longrightarrow> hmean [x] = Inr x"
  by (simp add: hmean_def harmonic_mean_def)

lemma hmean_zero:
  assumes "\<forall>x\<in>set xs. 0 \<le> x" "0 \<in> set xs"
  shows "hmean xs = Inr 0"
proof (cases "length xs = 1")
  case True
  then obtain x where "xs = [x]" by (cases xs) auto
  with assms show ?thesis by (simp add: hmean_def harmonic_mean_def)
next
  case False
  moreover from assms have "xs \<noteq> []" by auto
  ultimately show ?thesis
    using reciprocals_zero[OF assms] by (simp add: hmean_def harmonic_mean_def Let_def)
qed

lemma hmean_total:
  assumes "xs \<noteq> []" "\<forall>x\<in>set xs. 0 \<le> x"
  shows "\<exists>v. hmean xs = Inr v"
proof (cases "0 \<in> set xs")
  case True
  then show ?thesis using hmean_zero[OF assms(2)] by blast
next
  case False
  with assms have pos: "\<forall>x\<in>set xs. 0 < x" by (metis order_le_less)
  have "0 < sum_list (map (\<lambda>x. 1 / x) xs)"
    using assms(1) pos by (intro sum_list_pos) auto
  then show ?thesis
    using assms(1) pos
    by (cases xs) (auto simp: hmean_def harmonic_mean_def Let_def reciprocals_Inr simp del: reciprocals.simps)
qed

subsection \<open>Grouped maximum and completion\<close>

lemma set_unique: "set (unique xs) = set xs"
  by (simp add: unique_def)

lemma distinct_unique: "distinct (unique xs)"
  by (simp add: unique_def)

lemma map_of_column:
  "map_of (map (\<lambda>e. (e, f e)) es) e = (if e \<in> set es then Some (f e) else None)"
  by (induction es) auto

lemma nanmax_None: "nanmax vs = None \<longleftrightarrow> (\<forall>v\<in>set vs. v = None)"
  unfolding nanmax_def
proof (induction vs)
  case Nil
  then show ?case by simp
next
  case (Cons v vs)
  then show ?case by (cases v; cases "foldr omax vs None") auto
qed

lemma nanmax_Some:
  "nanmax vs = Some m \<Longrightarrow> Some m \<in> set vs \<and> (\<forall>x. Some x \<in> set vs \<longrightarrow> x \<le> m)"
  unfolding nanmax_def
proof (induction vs arbitrary: m)
  case Nil
  then show ?case by simp
next
  case (Cons v vs)
  show ?case
  proof (cases v)
    case None
    with Cons show ?thesis by auto
  next
    case (Some a)
    show ?thesis
    proof (cases "foldr omax vs None")
      case None
      then have "\<forall>v\<in>set vs. v = None" using nanmax_None[of vs] by (simp add: nanmax_def)
      with Cons.prems Some None show ?thesis by auto
    next
      case (Some b)
      with Cons.IH[of b] have "Some b \<in> set vs" "\<forall>x. Some x \<in> set vs \<longrightarrow> x \<le> b" by auto
      with Cons.prems \<open>v = Some a\<close> Some show ?thesis by (auto simp: max_def)
    qed
  qed
qed

lemma groupby_max_keys: "map fst (groupby_max effs rs) = sort (remdups (map key3_of rs))"
  by (simp add: groupby_max_def comp_def)

lemma groupby_max_distinct: "distinct (map fst (groupby_max effs rs))"
  by (simp add: groupby_max_keys)

lemma groupby_max_set_keys: "fst ` set (groupby_max effs rs) = key3_of ` set rs"
proof -
  have "set (map fst (groupby_max effs rs)) = key3_of ` set rs"
    by (simp add: groupby_max_keys)
  then show ?thesis by simp
qed

lemma groupby_max_row:
  "g \<in> set (groupby_max effs rs) \<Longrightarrow>
     snd g = map (\<lambda>e. (e, nanmax (map (\<lambda>r. to_float (cell_of e r))
                                  (filter (\<lambda>r. key3_of r = fst g) rs)))) effs"
  by (auto simp: groupby_max_def)

lemma value_of_groupby_max:
  assumes "g \<in> set (groupby_max effs rs)" "e \<in> set effs"
  shows "value_of e g =
     (case nanmax (map (\<lambda>r. to_float (cell_of e r)) (filter (\<lambda>r. key3_of r = fst g) rs)) of
        None \<Rightarrow> 0 | Some v \<Rightarrow> v)"
  using assms(2) by (simp add: value_of_def groupby_max_row[OF assms(1)] map_of_column split: option.splits)

lemma value_of_did_not_run: "value_of e (did_not_run k) = 0"
  by (cases e) (simp_all add: value_of_def did_not_run_def)

lemma fst_did_not_run: "fst (did_not_run k) = k"
  by (simp add: did_not_run_def)

lemma set_combinations:
  "set (combinations t) =
     (\<lambda>r. fst (fst r)) ` set t \<times> (\<lambda>r. fst (snd (fst r))) ` set t \<times> (\<lambda>r. snd (snd (fst r))) ` set t"
  by (simp add: combinations_def set_unique)

lemma distinct_combinations: "distinct (combinations t)"
  by (simp add: combinations_def distinct_product distinct_unique)

lemma keys_subset_combinations: "fst ` set t \<subseteq> set (combinations t)"
  by (force simp: set_combinations)

lemma filter_key_empty: "filter (\<lambda>r. fst r = k) t = [] \<longleftrightarrow> k \<notin> fst ` set t"
  by (auto simp: filter_empty_conv)

lemma add_did_not_run_keys: "fst ` set (add_did_not_run t) = set (combinations t)"
  using keys_subset_combinations[of t]
  by (auto simp: add_did_not_run_def filter_key_empty image_Un image_image fst_did_not_run)

lemma add_did_not_run_distinct:
  assumes "distinct (map fst t)"
  shows "distinct (map fst (add_did_not_run t))"
proof -
  have "map fst (add_did_not_run t) =
          map fst t @ filter (\<lambda>k. k \<notin> fst ` set t) (combinations t)"
    by (simp add: add_did_not_run_def filter_key_empty comp_def fst_did_not_run)
  then show ?thesis using assms distinct_combinations[of t] by auto
qed

lemma add_did_not_run_cases:
  "r \<in> set (add_did_not_run t) \<Longrightarrow> r \<in> set t \<or> (\<exists>k. r = did_not_run k \<and> k \<notin> fst ` set t)"
  by (auto simp: add_did_not_run_def filter_key_empty)

subsection \<open>The result for a valid table\<close>

lemma to_float_valid:
  "valid_cell c \<Longrightarrow> to_float c = None \<or> (\<exists>v. to_float c = Some v \<and> 0 \<le> v \<and> v \<le> 1)"
  by (cases c) auto

lemma group_max_bounds:
  assumes "\<forall>r\<in>set rs. valid_cell (cell_of e r)"
  shows "(case nanmax (map (\<lambda>r. to_float (cell_of e r)) (filter (\<lambda>r. key3_of r = k) rs)) of
            None \<Rightarrow> (0::real) | Some v \<Rightarrow> v) \<in> {0..1}"
proof (cases "nanmax (map (\<lambda>r. to_float (cell_of e r)) (filter (\<lambda>r. key3_of r = k) rs))")
  case None
  then show ?thesis by simp
next
  case (Some m)
  from nanmax_Some[OF Some] obtain r where "r \<in> set rs" "to_float (cell_of e r) = Some m"
    by auto
  with assms to_float_valid[of "cell_of e r"] Some show ?thesis by auto
qed

lemma value_of_bounds:
  assumes "\<forall>r\<in>set rs. valid_cell (cell_of e r)" "e \<in> set effs"
      and "r \<in> set (add_did_not_run (groupby_max effs rs))"
  shows "0 \<le> value_of e r \<and> value_of e r \<le> 1"
proof -
  from add_did_not_run_cases[OF assms(3)] show ?thesis
  proof
    assume "r \<in> set (groupby_max effs rs)"
    then show ?thesis
      using group_max_bounds[OF assms(1), of "fst r"] assms(2)
      by (simp add: value_of_groupby_max)
  next
    assume "\<exists>k. r = did_not_run k \<and> k \<notin> fst ` set (groupby_max effs rs)"
    then show ?thesis by (auto simp: value_of_did_not_run)
  qed
qed

lemma collect_map_all:
  "\<forall>x\<in>set xs. \<exists>y. f x = Inr y \<Longrightarrow> collect (map f xs) = Inr (map (\<lambda>x. projr (f x)) xs)"
proof (induction xs)
  case Nil
  then show ?case by simp
next
  case (Cons x xs)
  then obtain y where "f x = Inr y" by auto
  with Cons show ?case by simp
qed

text \<open>The value of a group that the harmonic mean accepts.\<close>

lemma pp_row_all:
  assumes "\<forall>e\<in>set effs. \<exists>v. hmean (map (value_of e) (filter (\<lambda>r. key2_of r = k) t)) = Inr v"
  shows "pp_row effs t k =
     Inr (k, map (\<lambda>e. (pp_name e, projr (hmean (map (value_of e) (filter (\<lambda>r. key2_of r = k) t))))) effs)"
proof -
  let ?f = "\<lambda>e. case hmean (map (value_of e) (filter (\<lambda>r. key2_of r = k) t)) of
                   Inl x \<Rightarrow> Inl x | Inr v \<Rightarrow> (Inr (pp_name e, v) :: error + string \<times> real)"
  have ok: "\<forall>e\<in>set effs. \<exists>y. ?f e = Inr y"
    using assms by (auto split: sum.splits)
  have "map (\<lambda>e. projr (?f e)) effs =
        map (\<lambda>e. (pp_name e, projr (hmean (map (value_of e) (filter (\<lambda>r. key2_of r = k) t))))) effs"
    using assms by (intro map_cong) (auto split: sum.splits)
  then show ?thesis
    unfolding pp_row_def collect_map_all[of effs ?f, OF ok] by simp
qed

lemma groupby_hmean_all:
  assumes "\<forall>k\<in>key2_of ` set t. \<forall>e\<in>set effs.
             \<exists>v. hmean (map (value_of e) (filter (\<lambda>r. key2_of r = k) t)) = Inr v"
  shows "groupby_hmean effs t =
     Inr (map (\<lambda>k. (k, map (\<lambda>e. (pp_name e,
                 projr (hmean (map (value_of e) (filter (\<lambda>r. key2_of r = k) t))))) effs))
              (sort (remdups (map key2_of t))))"
proof -
  have rows: "\<forall>k\<in>set (sort (remdups (map key2_of t))). pp_row effs t k =
     Inr (k, map (\<lambda>e. (pp_name e, projr (hmean (map (value_of e) (filter (\<lambda>r. key2_of r = k) t))))) effs)"
    using assms by (auto intro!: pp_row_all)
  then have "\<forall>k\<in>set (sort (remdups (map key2_of t))). \<exists>y. pp_row effs t k = Inr y"
    by blast
  from collect_map_all[OF this] have "groupby_hmean effs t =
      Inr (map (\<lambda>k. projr (pp_row effs t k)) (sort (remdups (map key2_of t))))"
    by (simp add: groupby_hmean_def)
  moreover have "map (\<lambda>k. projr (pp_row effs t k)) (sort (remdups (map key2_of t))) =
     map (\<lambda>k. (k, map (\<lambda>e. (pp_name e,
                 projr (hmean (map (value_of e) (filter (\<lambda>r. key2_of r = k) t))))) effs))
              (sort (remdups (map key2_of t)))"
    using rows by (intro map_cong) auto
  ultimately show ?thesis by simp
qed

lemma group_nonempty: "k \<in> key2_of ` set t \<Longrightarrow> filter (\<lambda>r. key2_of r = k) t \<noteq> []"
  by (auto simp: filter_empty_conv)

lemma hmean_group_total:
  assumes "valid_table df" "e \<in> set (efficiencies df)"
      and "k \<in> key2_of ` set (add_did_not_run (groupby_max (efficiencies df) (rows df)))"
  shows "\<exists>v. hmean (map (value_of e)
            (filter (\<lambda>r. key2_of r = k) (add_did_not_run (groupby_max (efficiencies df) (rows df))))) = Inr v"
proof (rule hmean_total)
  show "map (value_of e)
     (filter (\<lambda>r. key2_of r = k) (add_did_not_run (groupby_max (efficiencies df) (rows df)))) \<noteq> []"
    using group_nonempty[OF assms(3)] by simp
  have "\<forall>r\<in>set (rows df). valid_cell (cell_of e r)"
    using valid_table_cells[OF assms(1,2)] by blast
  from value_of_bounds[OF this assms(2)]
  show "\<forall>x\<in>set (map (value_of e)
     (filter (\<lambda>r. key2_of r = k) (add_did_not_run (groupby_max (efficiencies df) (rows df))))). 0 \<le> x"
    by auto
qed

text \<open>What \<open>pp\<close> returns for a valid table.\<close>

lemma pp_valid:
  assumes "valid_table df"
  shows "pp df = Inr \<lparr>pp_columns = [''problem'', ''application''] @ map pp_name (efficiencies df),
     pp_rows = sort_by_app_order
       (map (\<lambda>k. (k, map (\<lambda>e. (pp_name e, projr (hmean (map (value_of e)
                 (filter (\<lambda>r. key2_of r = k)
                    (add_did_not_run (groupby_max (efficiencies df) (rows df))))))))
               (efficiencies df)))
            (sort (remdups (map key2_of (add_did_not_run (groupby_max (efficiencies df) (rows df)))))))
       (unique (map application (rows df)))\<rparr>"
proof -
  have "\<forall>k\<in>key2_of ` set (add_did_not_run (groupby_max (efficiencies df) (rows df))).
          \<forall>e\<in>set (efficiencies df).
             \<exists>v. hmean (map (value_of e) (filter (\<lambda>r. key2_of r = k)
                     (add_did_not_run (groupby_max (efficiencies df) (rows df))))) = Inr v"
    using hmean_group_total[OF assms] by blast
  from groupby_hmean_all[OF this] show ?thesis
    using valid_table_checks[OF assms] by (simp add: pp_def Let_def)
qed

subsection \<open>Keys and rows of the result\<close>

lemma pp_name_inj: "pp_name e = pp_name e' \<longleftrightarrow> e = e'"
  by (cases e; cases e') auto

lemma map_of_pp_column:
  "e \<in> set es \<Longrightarrow> map_of (map (\<lambda>e. (pp_name e, g e)) es) (pp_name e) = Some (g e)"
  by (induction es) (auto simp: pp_name_inj)

lemma map_insort_key: "map g (insort_key (\<lambda>x. f (g x)) x xs) = insort_key f (g x) (map g xs)"
  by (induction xs) auto

lemma map_sort_key: "map g (sort_key (\<lambda>x. f (g x)) xs) = sort_key f (map g xs)"
  by (induction xs) (auto simp: map_insort_key)

lemma groupby_max_problems: "(\<lambda>r. fst (fst r)) ` set (groupby_max effs rs) = problem ` set rs"
proof -
  have "(\<lambda>r. fst (fst r)) ` set (groupby_max effs rs) = fst ` fst ` set (groupby_max effs rs)"
    by (simp add: image_image)
  also have "\<dots> = fst ` key3_of ` set rs" by (simp add: groupby_max_set_keys)
  also have "\<dots> = problem ` set rs" by (simp add: image_image key3_of_def)
  finally show ?thesis .
qed

lemma groupby_max_platforms: "(\<lambda>r. fst (snd (fst r))) ` set (groupby_max effs rs) = platform ` set rs"
proof -
  have "(\<lambda>r. fst (snd (fst r))) ` set (groupby_max effs rs) = (\<lambda>k. fst (snd k)) ` fst ` set (groupby_max effs rs)"
    by (simp add: image_image)
  also have "\<dots> = (\<lambda>k. fst (snd k)) ` key3_of ` set rs" by (simp add: groupby_max_set_keys)
  also have "\<dots> = platform ` set rs" by (simp add: image_image key3_of_def)
  finally show ?thesis .
qed

lemma groupby_max_applications: "(\<lambda>r. snd (snd (fst r))) ` set (groupby_max effs rs) = application ` set rs"
proof -
  have "(\<lambda>r. snd (snd (fst r))) ` set (groupby_max effs rs) = (\<lambda>k. snd (snd k)) ` fst ` set (groupby_max effs rs)"
    by (simp add: image_image)
  also have "\<dots> = (\<lambda>k. snd (snd k)) ` key3_of ` set rs" by (simp add: groupby_max_set_keys)
  also have "\<dots> = application ` set rs" by (simp add: image_image key3_of_def)
  finally show ?thesis .
qed

text \<open>The keys of the completed frame: the product of what the input has.\<close>

lemma completed_keys:
  "fst ` set (add_did_not_run (groupby_max effs rs)) =
     problem ` set rs \<times> platform ` set rs \<times> application ` set rs"
  by (simp add: add_did_not_run_keys set_combinations groupby_max_problems
      groupby_max_platforms groupby_max_applications)

lemma completed_distinct: "distinct (map fst (add_did_not_run (groupby_max effs rs)))"
  by (rule add_did_not_run_distinct) (rule groupby_max_distinct)

lemma completed_key2:
  "key2_of ` set (add_did_not_run (groupby_max effs rs)) = problem ` set rs \<times> application ` set rs"
proof -
  have "key2_of ` set (add_did_not_run (groupby_max effs rs)) =
        (\<lambda>k. (fst k, snd (snd k))) ` fst ` set (add_did_not_run (groupby_max effs rs))"
    by (simp add: image_image key2_of_def)
  also have "\<dots> = (\<lambda>k. (fst k, snd (snd k))) ` (problem ` set rs \<times> platform ` set rs \<times> application ` set rs)"
    by (simp only: completed_keys)
  also have "\<dots> = problem ` set rs \<times> application ` set rs"
    by (cases "rs = []") force+
  finally show ?thesis .
qed

text \<open>The rows of the result for a valid table, as a set and by their keys.\<close>

lemma pp_valid_Inr: "valid_table df \<Longrightarrow> pp df = Inr (projr (pp df))"
  by (simp add: pp_valid)

lemma pp_valid_columns:
  "valid_table df \<Longrightarrow>
     pp_columns (projr (pp df)) = [''problem'', ''application''] @ map pp_name (efficiencies df)"
  by (simp add: pp_valid)

lemma pp_valid_set:
  assumes "valid_table df"
  shows "set (pp_rows (projr (pp df))) =
           (\<lambda>k. (k, map (\<lambda>e. (pp_name e, projr (hmean (group_values e k (completed df)))))
                        (efficiencies df))) ` (problem ` set (rows df) \<times> application ` set (rows df))"
  by (simp add: pp_valid[OF assms] sort_by_app_order_def completed_key2)

lemma pp_valid_keys:
  assumes "valid_table df"
  shows "map fst (pp_rows (projr (pp df))) =
           sort_key (\<lambda>k. index_of (unique (map application (rows df))) (snd k))
             (sort (remdups (map key2_of (completed df))))"
  using map_sort_key[of fst "\<lambda>k. index_of (unique (map application (rows df))) (snd k)"
        "map (\<lambda>k. (k, map (\<lambda>e. (pp_name e, projr (hmean (group_values e k (completed df)))))
               (efficiencies df)))
            (sort (remdups (map key2_of (completed df))))"]
  by (simp add: pp_valid[OF assms] sort_by_app_order_def comp_def)

text \<open>A row of the result holds, by column, the harmonic mean of its group.\<close>

lemma pp_valid_row_exists:
  assumes "valid_table df" "p \<in> problem ` set (rows df)" "a \<in> application ` set (rows df)"
  shows "\<exists>vs. ((p, a), vs) \<in> set (pp_rows (projr (pp df)))"
proof -
  have "(p, a) \<in> problem ` set (rows df) \<times> application ` set (rows df)"
    using assms(2,3) by simp
  then show ?thesis unfolding pp_valid_set[OF assms(1)] by (intro exI) (rule imageI)
qed

lemma pp_valid_row_value:
  assumes "valid_table df" "e \<in> set (efficiencies df)"
      and "(k, vs) \<in> set (pp_rows (projr (pp df)))"
      and "hmean (group_values e k (completed df)) = Inr v"
  shows "map_of vs (pp_name e) = Some v"
proof -
  from assms(3) have "vs = map (\<lambda>e. (pp_name e, projr (hmean (group_values e k (completed df)))))
                        (efficiencies df)"
    unfolding pp_valid_set[OF assms(1)] by (elim imageE) simp
  then have "map_of vs (pp_name e) = Some (projr (hmean (group_values e k (completed df))))"
    using map_of_pp_column[OF assms(2), of "\<lambda>e. projr (hmean (group_values e k (completed df)))"]
    by simp
  then show ?thesis using assms(4) by simp
qed

section \<open>Zero dominance, row count and the single platform\<close>

lemma to_float_Some: "to_float c = Some v \<longleftrightarrow> c = Num v"
  by (cases c) auto

lemma group_max_is_max:
  assumes "max_of_key e k rs v"
  shows "nanmax (map (\<lambda>r. to_float (cell_of e r)) (filter (\<lambda>r. key3_of r = k) rs)) = Some v"
proof -
  let ?vs = "map (\<lambda>r. to_float (cell_of e r)) (filter (\<lambda>r. key3_of r = k) rs)"
  from assms obtain r where r: "r \<in> set rs" "key3_of r = k" "cell_of e r = Num v"
    by (auto simp: max_of_key_def list_ex_iff)
  then have in_vs: "Some v \<in> set ?vs" by force
  then have "nanmax ?vs \<noteq> None" using nanmax_None[of ?vs] by blast
  then obtain m where m: "nanmax ?vs = Some m" by auto
  from nanmax_Some[OF m] in_vs have "v \<le> m" and "Some m \<in> set ?vs" by auto
  then obtain r' where "r' \<in> set rs" "key3_of r' = k" "to_float (cell_of e r') = Some m"
    by auto
  then have "r' \<in> set rs" "key3_of r' = k" "cell_of e r' = Num m"
    by (simp_all add: to_float_Some)
  with assms have "m \<le> v" by (auto simp: max_of_key_def list_all_iff)
  with \<open>v \<le> m\<close> m show ?thesis by simp
qed

lemma group_max_null:
  assumes "all_null e k rs"
  shows "nanmax (map (\<lambda>r. to_float (cell_of e r)) (filter (\<lambda>r. key3_of r = k) rs)) = None"
  using assms by (auto simp: nanmax_None all_null_def list_all_iff)

lemma filter_distinct_key:
  "distinct (map fst xs) \<Longrightarrow> r \<in> set xs \<Longrightarrow> filter (\<lambda>x. fst x = fst r) xs = [r]"
proof (induction xs)
  case Nil
  then show ?case by simp
next
  case (Cons x xs)
  show ?case
  proof (cases "x = r")
    case True
    with Cons.prems have "fst r \<notin> fst ` set xs" by simp
    then have "\<forall>y\<in>set xs. fst y \<noteq> fst r" by (metis imageI)
    then have "filter (\<lambda>x. fst x = fst r) xs = []" by (simp add: filter_empty_conv)
    with True show ?thesis by simp
  next
    case False
    with Cons.prems have "r \<in> set xs" by simp
    with Cons.prems have "fst x \<notin> fst ` set xs" "fst r \<in> fst ` set xs" by auto
    then have "fst x \<noteq> fst r" by metis
    with Cons \<open>r \<in> set xs\<close> show ?thesis by simp
  qed
qed

lemma groupby_max_subset: "set (groupby_max effs rs) \<subseteq> set (add_did_not_run (groupby_max effs rs))"
  by (simp add: add_did_not_run_def)

text \<open>
  Claim C1. For a valid table, an efficiency column \<open>e\<close> it has, and a problem, a
  platform and an application that occur in it: if every row measured for that
  (problem, platform, application) is 0 or null in \<open>e\<close> (zero efficiency), or there is
  no such row (never ran), then \<open>pp\<close> returns a result, not an exception, and the row of
  the (problem, application) pair holds exactly 0 in the column derived from \<open>e\<close>.
\<close>

theorem pp_zero_dominance:
  assumes "valid_table df" and "eff_name e \<in> set (columns df)"
      and "p \<in> problem ` set (rows df)" and "h \<in> platform ` set (rows df)"
      and "a \<in> application ` set (rows df)"
      and "zero_or_absent e (p, h, a) (rows df)"
  shows "\<exists>out. pp df = Inr out \<and> (\<exists>vs. ((p, a), vs) \<in> set (pp_rows out)) \<and>
           (\<forall>vs. ((p, a), vs) \<in> set (pp_rows out) \<longrightarrow> map_of vs (pp_name e) = Some 0)"
proof -
  have e: "e \<in> set (efficiencies df)" using assms(2) by (simp add: efficiencies_iff)
  have cells: "\<forall>r\<in>set (rows df). valid_cell (cell_of e r)"
    using valid_table_cells[OF assms(1) e] by blast
  have "(p, h, a) \<in> fst ` set (completed df)"
    using assms(3,4,5) by (simp add: completed_keys)
  then obtain r0 where r0: "r0 \<in> set (completed df)" "fst r0 = (p, h, a)" by auto
  have v0: "value_of e r0 = 0"
    using add_did_not_run_cases[OF r0(1)]
  proof
    assume g: "r0 \<in> set (groupby_max (efficiencies df) (rows df))"
    let ?vs = "map (\<lambda>r. to_float (cell_of e r)) (filter (\<lambda>r. key3_of r = fst r0) (rows df))"
    have "nanmax ?vs = None \<or> nanmax ?vs = Some 0"
    proof (cases "nanmax ?vs")
      case None
      then show ?thesis by simp
    next
      case (Some m)
      from nanmax_Some[OF Some] have "Some m \<in> set ?vs" by simp
      then obtain r where "r \<in> set (rows df)" "key3_of r = fst r0"
        "to_float (cell_of e r) = Some m" by auto
      then have "r \<in> set (rows df)" "key3_of r = (p, h, a)" "cell_of e r = Num m"
        using r0(2) by (simp_all add: to_float_Some)
      with assms(6) have "m = 0" by (auto simp: zero_or_absent_def list_all_iff)
      with Some show ?thesis by simp
    qed
    then show ?thesis by (auto simp: value_of_groupby_max[OF g e])
  next
    assume "\<exists>k. r0 = did_not_run k \<and> k \<notin> fst ` set (groupby_max (efficiencies df) (rows df))"
    then show ?thesis by (auto simp: value_of_did_not_run)
  qed
  have "key2_of r0 = (p, a)" using r0(2) by (simp add: key2_of_def)
  with r0(1) v0 have zero: "0 \<in> set (group_values e (p, a) (completed df))" by force
  have "\<forall>x\<in>set (group_values e (p, a) (completed df)). 0 \<le> x"
    using value_of_bounds[OF cells e] by auto
  from hmean_zero[OF this zero] have hm: "hmean (group_values e (p, a) (completed df)) = Inr 0" .
  let ?out = "projr (pp df)"
  have "pp df = Inr ?out" by (rule pp_valid_Inr[OF assms(1)])
  moreover have "\<exists>vs. ((p, a), vs) \<in> set (pp_rows ?out)"
    by (rule pp_valid_row_exists[OF assms(1,3,5)])
  moreover have "\<forall>vs. ((p, a), vs) \<in> set (pp_rows ?out) \<longrightarrow> map_of vs (pp_name e) = Some 0"
    using pp_valid_row_value[OF assms(1) e _ hm] by blast
  ultimately show ?thesis by (intro exI[of _ ?out] conjI)
qed

text \<open>
  Claim C2, amended. For a valid table the result has exactly one row for every pair of
  a problem that occurs in the input and an application that occurs in the input,
  whether or not the two occur together in a row: its keys are distinct, they are the
  product of the two sets, and their number is the product of the two cardinalities.
  A valid table with at least one row has a result.
\<close>

theorem pp_rows_cross_product:
  assumes "valid_table df"
  shows "(rows df \<noteq> [] \<longrightarrow> (\<exists>out. pp df = Inr out)) \<and>
     (\<forall>out. pp df = Inr out \<longrightarrow>
        distinct (map fst (pp_rows out)) \<and>
        set (map fst (pp_rows out)) = problem ` set (rows df) \<times> application ` set (rows df) \<and>
        length (pp_rows out) = card (problem ` set (rows df)) * card (application ` set (rows df)))"
proof -
  let ?out = "projr (pp df)"
  have o: "pp df = Inr ?out" by (rule pp_valid_Inr[OF assms])
  have d: "distinct (map fst (pp_rows ?out))" unfolding pp_valid_keys[OF assms] by simp
  have s: "set (map fst (pp_rows ?out)) = problem ` set (rows df) \<times> application ` set (rows df)"
    unfolding pp_valid_keys[OF assms] by (simp add: completed_key2)
  have "length (pp_rows ?out) = length (map fst (pp_rows ?out))" by simp
  also have "\<dots> = card (set (map fst (pp_rows ?out)))" using d by (simp only: distinct_card)
  also have "\<dots> = card (problem ` set (rows df)) * card (application ` set (rows df))"
    unfolding s by (simp add: card_cartesian_product)
  finally have l: "length (pp_rows ?out) =
      card (problem ` set (rows df)) * card (application ` set (rows df))" .
  have "out = ?out" if "pp df = Inr out" for out using that by simp
  with o d s l show ?thesis by blast
qed

text \<open>
  Claim C3, amended. For a valid table whose rows are all of one platform \<open>h\<close>, and a
  (problem, application) pair measured on it: the value of the pair is the maximum of
  the efficiencies measured for it, and 0 when all of them are null.
\<close>

theorem pp_single_platform:
  assumes "valid_table df" and "eff_name e \<in> set (columns df)"
      and "unique (map platform (rows df)) = [h]"
      and "(p, h, a) \<in> key3_of ` set (rows df)"
  shows "\<exists>out. pp df = Inr out \<and> (\<exists>vs. ((p, a), vs) \<in> set (pp_rows out)) \<and>
     (\<forall>vs. ((p, a), vs) \<in> set (pp_rows out) \<longrightarrow>
        (\<forall>v. max_of_key e (p, h, a) (rows df) v \<longrightarrow> map_of vs (pp_name e) = Some v) \<and>
        (all_null e (p, h, a) (rows df) \<longrightarrow> map_of vs (pp_name e) = Some 0))"
proof -
  have e: "e \<in> set (efficiencies df)" using assms(2) by (simp add: efficiencies_iff)
  have cells: "\<forall>r\<in>set (rows df). valid_cell (cell_of e r)"
    using valid_table_cells[OF assms(1) e] by blast
  let ?G = "groupby_max (efficiencies df) (rows df)"
  let ?m = "nanmax (map (\<lambda>r. to_float (cell_of e r)) (filter (\<lambda>r. key3_of r = (p, h, a)) (rows df)))"
  from assms(4) have "(p, h, a) \<in> fst ` set ?G" by (simp add: groupby_max_set_keys)
  then obtain r0 where g: "r0 \<in> set ?G" and k0: "fst r0 = (p, h, a)" by auto
  then have r0: "r0 \<in> set (completed df)" using groupby_max_subset by blast
  have plat: "fst (snd (fst r)) = h" if "r \<in> set (completed df)" for r
  proof -
    from that have "fst r \<in> problem ` set (rows df) \<times> platform ` set (rows df) \<times> application ` set (rows df)"
      using completed_keys[of "efficiencies df" "rows df"] by blast
    moreover have "platform ` set (rows df) = {h}"
      using set_unique[of "map platform (rows df)"] assms(3) by simp
    ultimately show ?thesis by auto
  qed
  have "filter (\<lambda>r. key2_of r = (p, a)) (completed df) = filter (\<lambda>r. fst r = fst r0) (completed df)"
  proof (rule filter_cong[OF refl])
    fix r assume "r \<in> set (completed df)"
    from plat[OF this] show "(key2_of r = (p, a)) = (fst r = fst r0)"
      unfolding k0 key2_of_def by (cases r) auto
  qed
  also have "\<dots> = [r0]" by (rule filter_distinct_key[OF completed_distinct r0])
  finally have grp: "group_values e (p, a) (completed df) = [value_of e r0]" by simp
  have v0: "value_of e r0 = (case ?m of None \<Rightarrow> 0 | Some v \<Rightarrow> v)"
    using value_of_groupby_max[OF g e] k0 by simp
  have "0 \<le> value_of e r0" using value_of_bounds[OF cells e r0] by simp
  then have hm: "hmean (group_values e (p, a) (completed df)) = Inr (value_of e r0)"
    unfolding grp by (rule hmean_single)
  let ?out = "projr (pp df)"
  have o: "pp df = Inr ?out" by (rule pp_valid_Inr[OF assms(1)])
  have "p \<in> problem ` set (rows df)" "a \<in> application ` set (rows df)"
    using assms(4) by (force simp: key3_of_def)+
  then have ex: "\<exists>vs. ((p, a), vs) \<in> set (pp_rows ?out)"
    by (rule pp_valid_row_exists[OF assms(1)])
  have val: "map_of vs (pp_name e) = Some (value_of e r0)" if "((p, a), vs) \<in> set (pp_rows ?out)" for vs
    by (rule pp_valid_row_value[OF assms(1) e that hm])
  have mx: "value_of e r0 = v" if "max_of_key e (p, h, a) (rows df) v" for v
    using group_max_is_max[OF that] v0 by simp
  have nl: "value_of e r0 = 0" if "all_null e (p, h, a) (rows df)"
    using group_max_null[OF that] v0 by simp
  have "\<forall>vs. ((p, a), vs) \<in> set (pp_rows ?out) \<longrightarrow>
        (\<forall>v. max_of_key e (p, h, a) (rows df) v \<longrightarrow> map_of vs (pp_name e) = Some v) \<and>
        (all_null e (p, h, a) (rows df) \<longrightarrow> map_of vs (pp_name e) = Some 0)"
    using val mx nl by simp
  with o ex show ?thesis by (intro exI[of _ ?out] conjI)
qed

lemmas pp_defs =
  pp_def require_columns_def efficiencies_def unique_def groupby_max_def key3_of_def
  add_did_not_run_def combinations_def did_not_run_def nanmax_def groupby_hmean_def key2_of_def
  pp_row_def hmean_def harmonic_mean_def value_of_def sort_by_app_order_def index_of_def

lemmas table_defs = mk_row_def key_columns_def
  valid_table_def has_key_columns_def has_efficiency_def non_numeric_def out_of_range_def

theorem pp_zero_dominance_witness:
  "valid_table zero_table \<and> eff_name AppEff \<in> set (columns zero_table) \<and>
   ''P1'' \<in> problem ` set (rows zero_table) \<and> ''B'' \<in> platform ` set (rows zero_table) \<and>
   ''X'' \<in> application ` set (rows zero_table) \<and> ''Y'' \<in> application ` set (rows zero_table) \<and>
   zero_or_absent AppEff (''P1'', ''B'', ''X'') (rows zero_table) \<and>
   zero_or_absent AppEff (''P1'', ''B'', ''Y'') (rows zero_table) \<and>
   (\<exists>out. pp zero_table = Inr out \<and> (\<exists>vs. ((''P1'', ''X''), vs) \<in> set (pp_rows out)) \<and>
      (\<forall>vs. ((''P1'', ''X''), vs) \<in> set (pp_rows out) \<longrightarrow> map_of vs (pp_name AppEff) = Some 0)) \<and>
   (\<exists>out. pp zero_table = Inr out \<and> (\<exists>vs. ((''P1'', ''Y''), vs) \<in> set (pp_rows out)) \<and>
      (\<forall>vs. ((''P1'', ''Y''), vs) \<in> set (pp_rows out) \<longrightarrow> map_of vs (pp_name AppEff) = Some 0))"
proof -
  have 1: "valid_table zero_table" by (simp add: zero_table_def table_defs)
  have 2: "eff_name AppEff \<in> set (columns zero_table)" by (simp add: zero_table_def table_defs)
  have 3: "''P1'' \<in> problem ` set (rows zero_table)" by (simp add: zero_table_def table_defs)
  have 4: "''B'' \<in> platform ` set (rows zero_table)" by (simp add: zero_table_def table_defs)
  have 5: "''X'' \<in> application ` set (rows zero_table)" by (simp add: zero_table_def table_defs)
  have 6: "''Y'' \<in> application ` set (rows zero_table)" by (simp add: zero_table_def table_defs)
  have 7: "zero_or_absent AppEff (''P1'', ''B'', ''X'') (rows zero_table)"
    by (simp add: zero_table_def table_defs zero_or_absent_def key3_of_def)
  have 8: "zero_or_absent AppEff (''P1'', ''B'', ''Y'') (rows zero_table)"
    by (simp add: zero_table_def table_defs zero_or_absent_def key3_of_def)
  note x = pp_zero_dominance[OF 1 2 3 4 5 7]
  note y = pp_zero_dominance[OF 1 2 3 4 6 8]
  from 1 2 3 4 5 6 7 8 x y show ?thesis by (intro conjI)
qed

text \<open>
  Claim C2 as stated fails: two rows with two distinct (problem, application) pairs give
  a result of four rows.
\<close>

theorem pp_rows_raw_pairs_counterexample:
  "valid_table crossed_table \<and> pp crossed_table = Inr crossed_result \<and>
   length (pp_rows crossed_result) = 4 \<and>
   length (unique (map pair_of (rows crossed_table))) = 2"
  by (simp add: crossed_table_def crossed_result_def table_defs pp_defs pair_of_def)

theorem pp_rows_cross_product_witness:
  "valid_table crossed_table \<and> rows crossed_table \<noteq> [] \<and>
   (\<exists>out. pp crossed_table = Inr out \<and> distinct (map fst (pp_rows out)) \<and>
     set (map fst (pp_rows out)) =
       problem ` set (rows crossed_table) \<times> application ` set (rows crossed_table) \<and>
     length (pp_rows out) =
       card (problem ` set (rows crossed_table)) * card (application ` set (rows crossed_table)))"
proof -
  have 1: "valid_table crossed_table" by (simp add: crossed_table_def table_defs)
  have 2: "rows crossed_table \<noteq> []" by (simp add: crossed_table_def)
  from pp_rows_cross_product[OF 1] 1 2 show ?thesis by blast
qed

text \<open>
  Claim C3 as stated fails: X was measured on platform A only, with efficiency 1, and
  its value is 0, since platform B occurs in the table.
\<close>

theorem pp_one_measured_platform_counterexample:
  "valid_table ragged_table \<and>
   platforms_of (''P1'', ''X'') (rows ragged_table) = [''A''] \<and>
   max_of_key AppEff (''P1'', ''A'', ''X'') (rows ragged_table) 1 \<and>
   pp ragged_table = Inr ragged_result \<and>
   map_of (pp_rows ragged_result) (''P1'', ''X'') = Some [(''app pp'', 0)]"
  by (simp add: ragged_table_def ragged_result_def table_defs pp_defs pair_of_def
      platforms_of_def max_of_key_def)

theorem pp_single_platform_witness:
  "valid_table single_table \<and> eff_name AppEff \<in> set (columns single_table) \<and>
   unique (map platform (rows single_table)) = [''A''] \<and>
   (''P1'', ''A'', ''X'') \<in> key3_of ` set (rows single_table) \<and>
   max_of_key AppEff (''P1'', ''A'', ''X'') (rows single_table) (6/10) \<and>
   (\<exists>out. pp single_table = Inr out \<and> (\<exists>vs. ((''P1'', ''X''), vs) \<in> set (pp_rows out)) \<and>
     (\<forall>vs. ((''P1'', ''X''), vs) \<in> set (pp_rows out) \<longrightarrow> map_of vs (pp_name AppEff) = Some (6/10)))"
proof -
  have 1: "valid_table single_table" by (simp add: single_table_def table_defs)
  have 2: "eff_name AppEff \<in> set (columns single_table)" by (simp add: single_table_def table_defs)
  have 3: "unique (map platform (rows single_table)) = [''A'']"
    by (simp add: single_table_def table_defs unique_def)
  have 4: "(''P1'', ''A'', ''X'') \<in> key3_of ` set (rows single_table)"
    by (simp add: single_table_def table_defs key3_of_def)
  have 5: "max_of_key AppEff (''P1'', ''A'', ''X'') (rows single_table) (6/10)"
    by (simp add: single_table_def table_defs key3_of_def max_of_key_def)
  from pp_single_platform[OF 1 2 3 4] 1 2 3 4 5 show ?thesis by blast
qed

section \<open>Order of the applications\<close>

lemma index_of_nth:
  assumes "distinct xs" "i < length xs"
  shows "index_of xs (xs ! i) = i"
proof -
  have "takeWhile (\<lambda>y. y \<noteq> xs ! i) xs = take i xs"
  proof (rule takeWhile_eq_take_P_nth)
    fix j assume "j < i" "j < length xs"
    with assms show "xs ! j \<noteq> xs ! i" by (simp add: nth_eq_iff_index_eq)
  next
    show "\<not> xs ! i \<noteq> xs ! i" by simp
  qed
  with assms(2) show ?thesis by (simp add: index_of_def)
qed

lemma map_index_of: "distinct xs \<Longrightarrow> map (index_of xs) xs = [0..<length xs]"
  by (rule nth_equalityI) (simp_all add: index_of_nth)

lemma index_of_inj_on: "distinct xs \<Longrightarrow> inj_on (index_of xs) (set xs)"
proof (rule inj_onI)
  fix x y assume d: "distinct xs" and "x \<in> set xs" "y \<in> set xs" and eq: "index_of xs x = index_of xs y"
  then obtain i j where "i < length xs" "xs ! i = x" "j < length xs" "xs ! j = y"
    by (auto simp: in_set_conv_nth)
  with d eq show "x = y" using index_of_nth by metis
qed

lemma remdups_adj_map_inj_on:
  "inj_on f (set xs) \<Longrightarrow> remdups_adj (map f xs) = map f (remdups_adj xs)"
proof (induction xs rule: remdups_adj.induct)
  case (3 x y xs)
  then have "(f x = f y) = (x = y)" by (auto simp: inj_on_def)
  moreover have "inj_on f (set (x # xs))" "inj_on f (set (y # xs))"
    using "3.prems" by (auto simp: inj_on_def)
  ultimately show ?case using "3.IH" by auto
qed simp_all

lemma sorted_distinct_remdups_adj:
  "sorted xs \<Longrightarrow> distinct (remdups_adj xs) \<and> sorted (remdups_adj xs)"
proof (induction xs rule: remdups_adj.induct)
  case (3 x y xs)
  then show ?case by (cases "x = y") (auto simp: order_less_le dest: order_trans)
qed simp_all

text \<open>A list grouped in the order of a duplicate-free list collapses to that list.\<close>

lemma remdups_adj_sorted_by_index:
  assumes "distinct ord" "set xs = set ord" "sorted (map (index_of ord) xs)"
  shows "remdups_adj xs = ord"
proof -
  have inj: "inj_on (index_of ord) (set xs)"
    using index_of_inj_on[OF assms(1)] assms(2) by simp
  have "map (index_of ord) (remdups_adj xs) = remdups_adj (map (index_of ord) xs)"
    by (simp add: remdups_adj_map_inj_on[OF inj])
  moreover have "remdups_adj (map (index_of ord) xs) = map (index_of ord) ord"
  proof (rule sorted_distinct_set_unique)
    show "sorted (remdups_adj (map (index_of ord) xs))" "distinct (remdups_adj (map (index_of ord) xs))"
      using sorted_distinct_remdups_adj[OF assms(3)] by simp_all
    show "sorted (map (index_of ord) ord)" "distinct (map (index_of ord) ord)"
      by (simp_all add: map_index_of[OF assms(1)])
    show "set (remdups_adj (map (index_of ord) xs)) = set (map (index_of ord) ord)"
      using assms(2) by simp
  qed
  ultimately have "map (index_of ord) (remdups_adj xs) = map (index_of ord) ord" by simp
  moreover have "inj_on (index_of ord) (set (remdups_adj xs) \<union> set ord)"
    using inj assms(2) by simp
  ultimately show ?thesis by (simp add: inj_on_map_eq_map)
qed

text \<open>
  Claim C5. For a valid table the rows of the result are grouped by application, and the
  groups stand in the order in which the applications first occur in the input rows:
  the applications of the result rows, each run of equal neighbours taken once, are
  the list that line 86 captures from the input before the grouped maximum. A valid
  table with at least one row has a result.
\<close>

theorem pp_application_order:
  assumes "valid_table df"
  shows "(rows df \<noteq> [] \<longrightarrow> (\<exists>out. pp df = Inr out)) \<and>
         (\<forall>out. pp df = Inr out \<longrightarrow>
            remdups_adj (applications_of out) = unique (map application (rows df)))"
proof -
  let ?ord = "unique (map application (rows df))"
  let ?ks = "sort (remdups (map key2_of (completed df)))"
  let ?out = "projr (pp df)"
  have o: "pp df = Inr ?out" by (rule pp_valid_Inr[OF assms])
  have apps: "applications_of ?out = map snd (map fst (pp_rows ?out))"
    by (simp add: applications_of_def)
  have "map (index_of ?ord) (applications_of ?out) =
          map (\<lambda>k. index_of ?ord (snd k)) (sort_key (\<lambda>k. index_of ?ord (snd k)) ?ks)"
    unfolding apps pp_valid_keys[OF assms] by simp
  then have srt: "sorted (map (index_of ?ord) (applications_of ?out))"
    by (simp only: sorted_sort_key)
  have "set (applications_of ?out) = snd ` (problem ` set (rows df) \<times> application ` set (rows df))"
    unfolding apps pp_valid_keys[OF assms] by (simp add: completed_key2)
  also have "\<dots> = application ` set (rows df)"
    by (cases "rows df = []") force+
  finally have st: "set (applications_of ?out) = set ?ord" by (simp add: set_unique)
  have r: "remdups_adj (applications_of ?out) = ?ord"
    by (rule remdups_adj_sorted_by_index[OF distinct_unique st srt])
  have "out = ?out" if "pp df = Inr out" for out using that by simp
  with o r show ?thesis by blast
qed

theorem pp_application_order_witness:
  "valid_table order_table \<and> rows order_table \<noteq> [] \<and>
   unique (map application (rows order_table)) = [''Y'', ''X''] \<and>
   (\<exists>out. pp order_table = Inr out \<and> remdups_adj (applications_of out) = [''Y'', ''X''])"
proof -
  have 1: "valid_table order_table" by (simp add: order_table_def table_defs)
  have 2: "unique (map application (rows order_table)) = [''Y'', ''X'']"
    by (simp add: order_table_def table_defs unique_def)
  have 3: "rows order_table \<noteq> []" by (simp add: order_table_def)
  from pp_application_order[OF 1] 3 obtain out where "pp order_table = Inr out"
    "remdups_adj (applications_of out) = unique (map application (rows order_table))"
    by blast
  with 1 2 3 show ?thesis by simp
qed

section \<open>The checks: order and errors\<close>

lemma has_key_columns_iff:
  "has_key_columns df \<longleftrightarrow> set [''problem'', ''platform'', ''application''] \<subseteq> set (columns df)"
  by (simp add: has_key_columns_def)

lemma has_efficiency_iff: "has_efficiency df \<longleftrightarrow> efficiencies df \<noteq> []"
  by (auto simp: has_efficiency_def efficiencies_def)

lemma require_columns_Inl:
  "\<not> set cols \<subseteq> set (columns df) \<Longrightarrow> \<exists>m. require_columns df cols = Inl (MissingColumnError m)"
  by (auto simp: require_columns_def Let_def filter_empty_conv)

lemma non_numeric_iff:
  "non_numeric df e \<longleftrightarrow>
     e \<in> set (efficiencies df) \<and> (\<exists>r\<in>set (rows df). \<not> is_numeric (cell_of e r))"
proof -
  have "(case c of Other s \<Rightarrow> True | _ \<Rightarrow> False) = (\<not> is_numeric c)" for c
    by (cases c) auto
  then show ?thesis by (simp add: non_numeric_def efficiencies_iff list_ex_iff)
qed

lemma out_of_range_iff:
  assumes "\<not> non_numeric df e"
  shows "out_of_range df e \<longleftrightarrow>
     e \<in> set (efficiencies df) \<and> (\<exists>r\<in>set (rows df). \<not> between 0 1 (fillna 0 (cell_of e r)))"
proof (cases "e \<in> set (efficiencies df)")
  case True
  have "(case cell_of e r of Num v \<Rightarrow> v < 0 \<or> 1 < v | _ \<Rightarrow> False) =
        (\<not> between 0 1 (fillna 0 (cell_of e r)))" if "r \<in> set (rows df)" for r
    using that assms True by (cases "cell_of e r") (auto simp: non_numeric_iff)
  then show ?thesis using True by (auto simp: out_of_range_def efficiencies_iff list_ex_iff)
next
  case False
  then show ?thesis by (simp add: out_of_range_def efficiencies_iff)
qed

lemma valid_table_alt:
  "valid_table df \<longleftrightarrow>
     has_key_columns df \<and> has_efficiency df \<and> (\<forall>e. \<not> non_numeric df e) \<and> (\<forall>e. \<not> out_of_range df e)"
  by (auto simp: valid_table_def) (metis eff.exhaust)+

text \<open>The result of the checks, when the key columns and an efficiency column exist.\<close>

lemma pp_numeric_error:
  assumes "has_key_columns df" "has_efficiency df" "\<exists>e. non_numeric df e"
  shows "\<exists>e. non_numeric df e \<and> pp df = Inl (NonNumericValueError (eff_name e))"
proof -
  from assms(3) have "require_numeric df (efficiencies df) \<noteq> Inr ()"
    by (auto simp: require_numeric_Inr non_numeric_iff)
  then obtain x where x: "require_numeric df (efficiencies df) = Inl x"
    by (cases "require_numeric df (efficiencies df)") auto
  from require_numeric_Inl[OF x] obtain e where "non_numeric df e"
    "x = NonNumericValueError (eff_name e)" by (auto simp: non_numeric_iff)
  moreover have "pp df = Inl x"
    using assms(1,2) x
    by (simp add: pp_def has_key_columns_iff has_efficiency_iff require_columns_Inr[of _ _ "()", THEN iffD2])
  ultimately show ?thesis by blast
qed

lemma pp_range_error:
  assumes "has_key_columns df" "has_efficiency df" "\<forall>e. \<not> non_numeric df e" "\<exists>e. out_of_range df e"
  shows "\<exists>e. out_of_range df e \<and> pp df = Inl (ValueError (eff_name e @ '' must in range [0, 1]''))"
proof -
  have num: "require_numeric df (efficiencies df) = Inr ()"
    using assms(3) by (auto simp: require_numeric_Inr non_numeric_iff)
  from assms(3,4) have "check_range df (efficiencies df) \<noteq> Inr ()"
    by (auto simp: check_range_Inr out_of_range_iff)
  then obtain x where x: "check_range df (efficiencies df) = Inl x"
    by (cases "check_range df (efficiencies df)") auto
  from check_range_Inl[OF x] assms(3) obtain e where "out_of_range df e"
    "x = ValueError (eff_name e @ '' must in range [0, 1]'')" by (auto simp: out_of_range_iff)
  moreover have "pp df = Inl x"
    using assms(1,2) x num
    by (simp add: pp_def has_key_columns_iff has_efficiency_iff require_columns_Inr[of _ _ "()", THEN iffD2])
  ultimately show ?thesis by blast
qed

lemma eff_name_inj: "eff_name e = eff_name e' \<longleftrightarrow> e = e'"
  by (cases e; cases e') auto

text \<open>
  Claim C6. The checks come first and in the order missing key columns, missing
  efficiency columns, non-numeric values, out-of-range values: a table that fails one
  of them fails with the error of the first it fails, whatever later checks it fails as
  well, and there is no result; a table that passes all four and has a row has a result.
\<close>

theorem pp_first_violated_check:
  "(\<not> has_key_columns df \<longrightarrow> (\<exists>m. pp df = Inl (MissingColumnError m))) \<and>
   (has_key_columns df \<and> \<not> has_efficiency df \<longrightarrow> pp df = Inl (ValueError missing_efficiency_msg)) \<and>
   (has_key_columns df \<and> has_efficiency df \<and> (\<exists>e. non_numeric df e) \<longrightarrow>
      (\<exists>e. non_numeric df e \<and> pp df = Inl (NonNumericValueError (eff_name e)))) \<and>
   (has_key_columns df \<and> has_efficiency df \<and> (\<forall>e. \<not> non_numeric df e) \<and> (\<exists>e. out_of_range df e) \<longrightarrow>
      (\<exists>e. out_of_range df e \<and> pp df = Inl (ValueError (eff_name e @ '' must in range [0, 1]'')))) \<and>
   (has_key_columns df \<and> has_efficiency df \<and> (\<forall>e. \<not> non_numeric df e) \<and>
    (\<forall>e. \<not> out_of_range df e) \<and> rows df \<noteq> [] \<longrightarrow> (\<exists>out. pp df = Inr out))"
proof (intro conjI impI)
  assume "\<not> has_key_columns df"
  then obtain m where "require_columns df [''problem'', ''platform'', ''application''] = Inl (MissingColumnError m)"
    using require_columns_Inl[of "[''problem'', ''platform'', ''application'']" df]
    by (auto simp: has_key_columns_iff)
  then show "\<exists>m. pp df = Inl (MissingColumnError m)" by (simp add: pp_def)
next
  assume "has_key_columns df \<and> \<not> has_efficiency df"
  then show "pp df = Inl (ValueError missing_efficiency_msg)"
    by (simp add: pp_def has_key_columns_iff has_efficiency_iff require_columns_Inr[of _ _ "()", THEN iffD2])
next
  assume "has_key_columns df \<and> has_efficiency df \<and> (\<exists>e. non_numeric df e)"
  then show "\<exists>e. non_numeric df e \<and> pp df = Inl (NonNumericValueError (eff_name e))"
    using pp_numeric_error by blast
next
  assume "has_key_columns df \<and> has_efficiency df \<and> (\<forall>e. \<not> non_numeric df e) \<and> (\<exists>e. out_of_range df e)"
  then show "\<exists>e. out_of_range df e \<and> pp df = Inl (ValueError (eff_name e @ '' must in range [0, 1]''))"
    using pp_range_error by blast
next
  assume "has_key_columns df \<and> has_efficiency df \<and> (\<forall>e. \<not> non_numeric df e) \<and>
    (\<forall>e. \<not> out_of_range df e) \<and> rows df \<noteq> []"
  then have "valid_table df" by (simp add: valid_table_alt)
  then show "\<exists>out. pp df = Inr out" using pp_valid by blast
qed

theorem pp_first_violated_check_witness:
  "\<not> has_key_columns no_platform_table \<and> \<not> has_efficiency no_platform_table \<and>
   (\<exists>m. pp no_platform_table = Inl (MissingColumnError m)) \<and>
   has_key_columns non_numeric_table \<and> has_efficiency non_numeric_table \<and>
   non_numeric non_numeric_table ArchEff \<and> out_of_range non_numeric_table AppEff \<and>
   pp non_numeric_table = Inl (NonNumericValueError ''arch eff'') \<and>
   has_key_columns percent_table \<and> has_efficiency percent_table \<and>
   out_of_range percent_table ArchEff \<and>
   pp percent_table = Inl (ValueError ''arch eff must in range [0, 1]'') \<and>
   has_key_columns no_efficiency_table \<and> \<not> has_efficiency no_efficiency_table \<and>
   pp no_efficiency_table = Inl (ValueError missing_efficiency_msg) \<and>
   valid_table boundary_table \<and> rows boundary_table \<noteq> [] \<and>
   (\<exists>out. pp boundary_table = Inr out)"
proof -
  have a: "\<not> has_key_columns no_platform_table" "\<not> has_efficiency no_platform_table"
    by (simp_all add: no_platform_table_def table_defs)
  have b: "has_key_columns non_numeric_table" "has_efficiency non_numeric_table"
    "non_numeric non_numeric_table ArchEff" "out_of_range non_numeric_table AppEff"
    by (simp_all add: non_numeric_table_def table_defs)
  have b': "\<not> non_numeric non_numeric_table AppEff"
    by (simp add: non_numeric_table_def table_defs)
  have c: "has_key_columns percent_table" "has_efficiency percent_table"
    "out_of_range percent_table ArchEff" "\<not> out_of_range percent_table AppEff"
    by (simp_all add: percent_table_def table_defs)
  have "\<not> non_numeric percent_table AppEff" "\<not> non_numeric percent_table ArchEff"
    by (simp_all add: percent_table_def table_defs)
  then have c': "\<forall>e. \<not> non_numeric percent_table e" by (metis eff.exhaust)
  have d: "has_key_columns no_efficiency_table" "\<not> has_efficiency no_efficiency_table"
    by (simp_all add: no_efficiency_table_def table_defs)
  have e: "valid_table boundary_table" "rows boundary_table \<noteq> []"
    by (simp_all add: boundary_table_def table_defs)
  have 1: "\<exists>m. pp no_platform_table = Inl (MissingColumnError m)"
    using pp_first_violated_check[of no_platform_table] a by blast
  obtain x where x: "non_numeric non_numeric_table x"
    "pp non_numeric_table = Inl (NonNumericValueError (eff_name x))"
    using pp_first_violated_check[of non_numeric_table] b by blast
  with b' have "x = ArchEff" by (cases x) auto
  with x have 2: "pp non_numeric_table = Inl (NonNumericValueError ''arch eff'')" by simp
  obtain y where y: "out_of_range percent_table y"
    "pp percent_table = Inl (ValueError (eff_name y @ '' must in range [0, 1]''))"
    using pp_first_violated_check[of percent_table] c c' by blast
  with c(4) have "y = ArchEff" by (cases y) auto
  with y have 3: "pp percent_table = Inl (ValueError ''arch eff must in range [0, 1]'')" by simp
  have 4: "pp no_efficiency_table = Inl (ValueError missing_efficiency_msg)"
    using pp_first_violated_check[of no_efficiency_table] d by blast
  have 5: "\<exists>out. pp boundary_table = Inr out"
    using pp_first_violated_check[of boundary_table] e by (simp add: valid_table_alt)
  from a b c d e 1 2 3 4 5 show ?thesis by simp
qed

text \<open>
  Claim C7. A table that has the columns problem, platform and application and neither
  \<open>app eff\<close> nor \<open>arch eff\<close> has no result: \<open>pp\<close> raises the \<open>ValueError\<close> of line 78,
  whose message names both columns.
\<close>

theorem pp_missing_efficiency:
  assumes "has_key_columns df" and "''app eff'' \<notin> set (columns df)"
      and "''arch eff'' \<notin> set (columns df)"
  shows "pp df = Inl (ValueError missing_efficiency_msg) \<and>
         sublist ''app eff'' missing_efficiency_msg \<and> sublist ''arch eff'' missing_efficiency_msg"
proof -
  have "efficiencies df = []" using assms(2,3) by (simp add: efficiencies_def)
  then have "pp df = Inl (ValueError missing_efficiency_msg)"
    using assms(1)
    by (simp add: pp_def has_key_columns_iff require_columns_Inr[of _ _ "()", THEN iffD2])
  moreover have "missing_efficiency_msg =
      (''DataFrame must contain a column named '' @ [CHR 0x27] @ ''arch eff'' @ [CHR 0x27] @
       '' or '' @ [CHR 0x27]) @ ''app eff'' @ ([CHR 0x27] @ ''.'')"
    by (simp add: missing_efficiency_msg_def)
  then have "sublist ''app eff'' missing_efficiency_msg" unfolding sublist_def by blast
  moreover have "missing_efficiency_msg =
      (''DataFrame must contain a column named '' @ [CHR 0x27]) @ ''arch eff'' @
      ([CHR 0x27] @ '' or '' @ [CHR 0x27] @ ''app eff'' @ [CHR 0x27] @ ''.'')"
    by (simp add: missing_efficiency_msg_def)
  then have "sublist ''arch eff'' missing_efficiency_msg" unfolding sublist_def by blast
  ultimately show ?thesis by simp
qed

theorem pp_missing_efficiency_witness:
  "has_key_columns no_efficiency_table \<and> ''app eff'' \<notin> set (columns no_efficiency_table) \<and>
   ''arch eff'' \<notin> set (columns no_efficiency_table) \<and>
   pp no_efficiency_table = Inl (ValueError missing_efficiency_msg) \<and>
   sublist ''app eff'' missing_efficiency_msg \<and> sublist ''arch eff'' missing_efficiency_msg"
proof -
  have 1: "has_key_columns no_efficiency_table" by (simp add: no_efficiency_table_def table_defs)
  have 2: "''app eff'' \<notin> set (columns no_efficiency_table)"
    by (simp add: no_efficiency_table_def table_defs)
  have 3: "''arch eff'' \<notin> set (columns no_efficiency_table)"
    by (simp add: no_efficiency_table_def table_defs)
  from pp_missing_efficiency[OF 1 2 3] 1 2 3 show ?thesis by simp
qed

text \<open>
  Claim C8. For a table that has the key columns, an efficiency column, and only nulls
  and numbers in its efficiency columns: \<open>pp\<close> raises the \<open>ValueError\<close> of line 84 if
  and only if some efficiency column holds a number below 0 or above 1, and the column
  the message names is such a column. A null, 0 and 1 are not such numbers.
\<close>

theorem pp_out_of_range:
  assumes "has_key_columns df" and "has_efficiency df"
      and "\<not> non_numeric df AppEff" and "\<not> non_numeric df ArchEff"
  shows "((\<exists>e. pp df = Inl (ValueError (eff_name e @ '' must in range [0, 1]''))) \<longleftrightarrow>
          (\<exists>e. out_of_range df e)) \<and>
         (\<forall>e. pp df = Inl (ValueError (eff_name e @ '' must in range [0, 1]'')) \<longrightarrow>
              out_of_range df e)"
proof -
  have num: "\<forall>e. \<not> non_numeric df e" using assms(3,4) by (metis eff.exhaust)
  have fwd: "out_of_range df e"
    if "pp df = Inl (ValueError (eff_name e @ '' must in range [0, 1]''))" for e
  proof (cases "\<exists>e. out_of_range df e")
    case True
    from pp_range_error[OF assms(1,2) num True] that obtain e' where
      "out_of_range df e'" "eff_name e' @ '' must in range [0, 1]'' = eff_name e @ '' must in range [0, 1]''"
      by auto
    then show ?thesis by (simp add: eff_name_inj)
  next
    case False
    with assms(1,2) num have "valid_table df" by (simp add: valid_table_alt)
    from pp_valid_Inr[OF this] that show ?thesis by simp
  qed
  have bwd: "\<exists>e. pp df = Inl (ValueError (eff_name e @ '' must in range [0, 1]''))"
    if "\<exists>e. out_of_range df e"
    using pp_range_error[OF assms(1,2) num that] by blast
  from fwd bwd show ?thesis by blast
qed

theorem pp_out_of_range_witness:
  "has_key_columns percent_table \<and> has_efficiency percent_table \<and>
   \<not> non_numeric percent_table AppEff \<and> \<not> non_numeric percent_table ArchEff \<and>
   out_of_range percent_table ArchEff \<and>
   (\<exists>e. pp percent_table = Inl (ValueError (eff_name e @ '' must in range [0, 1]''))) \<and>
   has_key_columns boundary_table \<and> has_efficiency boundary_table \<and>
   \<not> non_numeric boundary_table AppEff \<and> \<not> non_numeric boundary_table ArchEff \<and>
   \<not> out_of_range boundary_table AppEff \<and> \<not> out_of_range boundary_table ArchEff \<and>
   pp boundary_table \<noteq> Inl (ValueError (eff_name AppEff @ '' must in range [0, 1]''))"
proof -
  have c: "has_key_columns percent_table" "has_efficiency percent_table"
    "\<not> non_numeric percent_table AppEff" "\<not> non_numeric percent_table ArchEff"
    "out_of_range percent_table ArchEff"
    by (simp_all add: percent_table_def table_defs)
  have d: "has_key_columns boundary_table" "has_efficiency boundary_table"
    "\<not> non_numeric boundary_table AppEff" "\<not> non_numeric boundary_table ArchEff"
    "\<not> out_of_range boundary_table AppEff" "\<not> out_of_range boundary_table ArchEff"
    by (simp_all add: boundary_table_def table_defs)
  have 1: "\<exists>e. pp percent_table = Inl (ValueError (eff_name e @ '' must in range [0, 1]''))"
    using pp_out_of_range[OF c(1-4)] c(5) by blast
  have 2: "pp boundary_table \<noteq> Inl (ValueError (eff_name AppEff @ '' must in range [0, 1]''))"
    using pp_out_of_range[OF d(1-4)] d(5) by blast
  from c d 1 2 show ?thesis by simp
qed

section \<open>Two runs on the same table\<close>

lemma checks_valid_table:
  assumes "require_columns df [''problem'', ''platform'', ''application''] = Inr ()"
      and "efficiencies df \<noteq> []"
      and "require_numeric df (efficiencies df) = Inr ()"
      and "check_range df (efficiencies df) = Inr ()"
  shows "valid_table df"
proof -
  have k: "has_key_columns df" using assms(1) by (simp add: require_columns_Inr has_key_columns_iff)
  have e: "has_efficiency df" using assms(2) by (simp add: has_efficiency_iff)
  have n: "\<forall>e. \<not> non_numeric df e" using assms(3) by (auto simp: require_numeric_Inr non_numeric_iff)
  then have "\<forall>e. \<not> out_of_range df e" using assms(4) by (auto simp: check_range_Inr out_of_range_iff)
  with k e n show ?thesis by (simp add: valid_table_alt)
qed

text \<open>A table that fails a check: the run raises what \<open>pp\<close> gives and leaves the heap alone.\<close>

lemma pp_run_invalid:
  assumes "table_at s a = Some df" and "\<not> valid_table df"
  shows "\<exists>x. pp df = Inl x \<and> pp_run s a = Some (s, Inl x)"
proof -
  from assms(2) checks_valid_table[of df]
  have "\<not> (require_columns df [''problem'', ''platform'', ''application''] = Inr () \<and>
           efficiencies df \<noteq> [] \<and> require_numeric df (efficiencies df) = Inr () \<and>
           check_range df (efficiencies df) = Inr ())" by blast
  then show ?thesis
    using assms(1) by (auto simp: pp_def pp_run_def Let_def split: sum.splits)
qed

lemma key2_of_fillna_row: "key2_of (fillna_row effs r) = key2_of r"
  by (simp add: key2_of_def fillna_row_def)

lemma map_of_fill:
  "map_of (map (\<lambda>(e, v). (e, f e v)) cs) e = map_option (f e) (map_of cs e)"
  by (induction cs) auto

lemma value_of_fillna_row: "value_of e (fillna_row effs r) = value_of e r"
  by (simp add: value_of_def fillna_row_def map_of_fill split: option.splits)

lemma group_values_fill:
  "group_values e k (map (fillna_row effs) t) = group_values e k t"
  by (induction t) (simp_all add: key2_of_fillna_row value_of_fillna_row)

lemma keys_fill: "map key2_of (map (fillna_row effs) t) = map key2_of t"
  by (simp add: key2_of_fillna_row)

lemma agg_hmean_valid:
  assumes "valid_table df"
  shows "agg_hmean (efficiencies df) (map (fillna_row (efficiencies df)) (completed df)) =
           Inr (hm_rows eff_name df)"
proof -
  let ?effs = "efficiencies df" and ?T = "completed df"
  let ?ks = "sort (remdups (map key2_of ?T))"
  let ?col = "\<lambda>k e. case hmean (group_values e k ?T) of
                   Inl x \<Rightarrow> Inl x | Inr v \<Rightarrow> (Inr (eff_name e, v) :: error + string \<times> real)"
  let ?row = "\<lambda>k. case collect (map (?col k) ?effs) of
                   Inl x \<Rightarrow> Inl x | Inr vs \<Rightarrow> (Inr (k, vs) :: error + pprow)"
  have col: "?col k e = Inr (eff_name e, projr (hmean (group_values e k ?T)))"
    if "k \<in> set ?ks" "e \<in> set ?effs" for k e
  proof -
    from that(1) have "k \<in> key2_of ` set ?T" by simp
    from hmean_group_total[OF assms that(2) this] show ?thesis by auto
  qed
  have row: "?row k = Inr (k, map (\<lambda>e. (eff_name e, projr (hmean (group_values e k ?T)))) ?effs)"
    if "k \<in> set ?ks" for k
  proof -
    have "\<forall>e\<in>set ?effs. \<exists>y. ?col k e = Inr y" using col[OF that] by blast
    from collect_map_all[OF this]
    have "collect (map (?col k) ?effs) = Inr (map (\<lambda>e. projr (?col k e)) ?effs)" .
    moreover have "map (\<lambda>e. projr (?col k e)) ?effs =
        map (\<lambda>e. (eff_name e, projr (hmean (group_values e k ?T)))) ?effs"
      using col[OF that] by (intro map_cong) auto
    ultimately show ?thesis by simp
  qed
  then have "\<forall>k\<in>set ?ks. \<exists>y. ?row k = Inr y" by blast
  from collect_map_all[OF this]
  have "collect (map ?row ?ks) = Inr (map (\<lambda>k. projr (?row k)) ?ks)" .
  moreover have "map (\<lambda>k. projr (?row k)) ?ks = hm_rows eff_name df"
    using row by (intro map_cong) auto
  ultimately show ?thesis
    by (simp add: agg_hmean_def group_values_fill keys_fill del: map_map)
qed

lemma efficiencies_cases:
  "efficiencies df = [] \<or> efficiencies df = [AppEff] \<or> efficiencies df = [ArchEff] \<or>
   efficiencies df = [AppEff, ArchEff]"
  by (simp add: efficiencies_def)

lemma lookup_prefix: "prefix s s' \<Longrightarrow> b < length s \<Longrightarrow> lookup s' b = lookup s b"
  by (auto simp: lookup_def prefix_def nth_append)

lemma lookup_Some_less: "lookup s b = Some fr \<Longrightarrow> b < length s"
  by (simp add: lookup_def split: if_splits)

text \<open>The objects that the renaming of lines 124-127 and the sort of line 130 add.\<close>

lemma rename_sort_valid:
  assumes "efficiencies df \<noteq> []"
  shows "\<exists>d' s7 f s8.
     rename_columns (s0 @ [Values Columns ([''problem'', ''application''] @ map eff_name (efficiencies df))
                             (hm_rows eff_name df)]) (length s0) (efficiencies df) = Some (d', s7) \<and>
     sort_frame s7 d' ord = Some (f, s8) \<and> prefix s0 s8 \<and>
     lookup s8 f = Some (Values Columns ([''problem'', ''application''] @ map pp_name (efficiencies df))
                           (sort_by_app_order (hm_rows pp_name df) ord))"
proof -
  consider "efficiencies df = [AppEff]" | "efficiencies df = [ArchEff]"
    | "efficiencies df = [AppEff, ArchEff]"
    using efficiencies_cases[of df] assms(1) by blast
  then show ?thesis
  proof cases
    case 1
    show ?thesis
      unfolding 1
      by (simp add: lookup_def put_def alloc_def sort_frame_def rename_name_def rename_row_def
          nth_append list_update_append comp_def)
  next
    case 2
    show ?thesis
      unfolding 2
      by (simp add: lookup_def put_def alloc_def sort_frame_def rename_name_def rename_row_def
          nth_append list_update_append comp_def)
  next
    case 3
    show ?thesis
      unfolding 3
      by (simp add: lookup_def put_def alloc_def sort_frame_def rename_name_def rename_row_def
          nth_append list_update_append comp_def)
  qed
qed

text \<open>
  The run on a valid table: it returns a new object that holds the result of \<open>pp\<close>,
  and the objects that were there before are as they were.
\<close>

lemma pp_run_valid:
  assumes "table_at s a = Some df" and "valid_table df"
  shows "\<exists>s' f. pp_run s a = Some (s', Inr f) \<and> prefix s s' \<and>
           lookup s' f = Some (frame_of (projr (pp df)))"
proof -
  let ?effs = "efficiencies df"
  let ?G = "groupby_max ?effs (rows df)"
  let ?T = "completed df"
  let ?T' = "map (fillna_row ?effs) ?T"
  let ?ord = "unique (map application (rows df))"
  let ?s4 = "s @ [Keyed Columns ?G, Keyed Columns ?T']"
  let ?V = "Values Columns ([''problem'', ''application''] @ map eff_name ?effs) (hm_rows eff_name df)"
  note checks = valid_table_checks[OF assms(2)]
  have 2: "reset_index (s @ [Keyed Index ?G]) (length s) = Some (s @ [Keyed Columns ?G])"
    by (simp add: reset_index_def lookup_def put_def)
  have 3: "keyed_at (s @ [Keyed Columns ?G]) (length s) = Some ?G"
    by (simp add: keyed_at_def lookup_def)
  have 5: "fill_efficiencies (s @ [Keyed Columns ?G, Keyed Columns ?T]) (Suc (length s)) ?effs =
             Some ?s4"
    by (simp add: fill_efficiencies_def keyed_at_def lookup_def put_def nth_append list_update_append)
  have 6: "keyed_at ?s4 (Suc (length s)) = Some ?T'"
    by (simp add: keyed_at_def lookup_def nth_append)
  have 7: "agg_hmean ?effs ?T' = Inr (hm_rows eff_name df)"
    by (rule agg_hmean_valid[OF assms(2)])
  have 9: "reset_index (?s4 @ [Values Index (map eff_name ?effs) (hm_rows eff_name df)])
             (Suc (Suc (length s))) = Some (?s4 @ [?V])"
    by (simp add: reset_index_def lookup_def put_def nth_append list_update_append)
  have len: "length ?s4 = Suc (Suc (length s))" by simp
  from rename_sort_valid[OF checks(2), of ?s4 ?ord, unfolded len]
  obtain d' s7 f s8 where
    10: "rename_columns (?s4 @ [?V]) (Suc (Suc (length s))) ?effs = Some (d', s7)" and
    11: "sort_frame s7 d' ?ord = Some (f, s8)" and
    12: "prefix ?s4 s8" and
    13: "lookup s8 f = Some (Values Columns ([''problem'', ''application''] @ map pp_name ?effs)
                           (sort_by_app_order (hm_rows pp_name df) ?ord))"
    by auto
  have run: "pp_run s a = Some (s8, Inr f)"
    using assms(1) checks 2 3 5 6 7 9 10 11
    by (simp add: pp_run_def alloc_def Let_def)
  have "prefix s ?s4" by simp
  from this 12 have pre: "prefix s s8" by (rule prefix_order.trans)
  have "frame_of (projr (pp df)) =
      Values Columns ([''problem'', ''application''] @ map pp_name ?effs)
        (sort_by_app_order (hm_rows pp_name df) ?ord)"
    by (simp add: frame_of_def pp_valid[OF assms(2)])
  with 13 have "lookup s8 f = Some (frame_of (projr (pp df)))" by simp
  with run pre show ?thesis by blast
qed

lemma table_at_prefix:
  assumes "table_at s a = Some df" and "prefix s s'"
  shows "table_at s' a = Some df"
proof -
  from assms(1) have "a < length s"
    by (auto simp: table_at_def lookup_def split: if_splits)
  from lookup_prefix[OF assms(2) this] assms(1) show ?thesis by (simp add: table_at_def)
qed

lemma outcome_prefix:
  assumes "prefix s s'" and "\<forall>f. r = Inr f \<longrightarrow> f < length s"
  shows "outcome s' r = outcome s r"
  using assms by (cases r) (simp_all add: outcome_def lookup_prefix)

text \<open>
  A run on a table never lacks an object it reads; it adds objects to the heap and
  changes none that was there; what the caller sees is what the function \<open>pp\<close> gives
  for the table.
\<close>

lemma pp_run_outcome:
  assumes "table_at s a = Some df"
  shows "\<exists>s' r. pp_run s a = Some (s', r) \<and> prefix s s' \<and>
           (\<forall>f. r = Inr f \<longrightarrow> f < length s') \<and>
           outcome s' r = (case pp df of Inl x \<Rightarrow> Inl x | Inr out \<Rightarrow> Inr (Some (frame_of out)))"
proof (cases "valid_table df")
  case True
  from pp_run_valid[OF assms True] obtain s' f where
    r: "pp_run s a = Some (s', Inr f)" "prefix s s'" "lookup s' f = Some (frame_of (projr (pp df)))"
    by blast
  from r(3) have "f < length s'" by (rule lookup_Some_less)
  moreover have "outcome s' (Inr f) =
      (case pp df of Inl x \<Rightarrow> Inl x | Inr out \<Rightarrow> Inr (Some (frame_of out)))"
    using r(3) pp_valid_Inr[OF True] by (cases "pp df") (simp_all add: outcome_def)
  ultimately show ?thesis using r(1,2) by auto
next
  case False
  from pp_run_invalid[OF assms False] obtain x where
    "pp df = Inl x" "pp_run s a = Some (s, Inl x)" by blast
  then show ?thesis by (simp add: outcome_def)
qed

text \<open>
  Claim C9. Two runs of \<open>pp\<close> on the same input table give identical outcomes. The
  table is an object on the heap, and a run may leave the heap changed. Whatever else
  the heap holds: the run ends; a second run on the same object, in the heap that the
  first left, ends as well; the input object holds the same table after each; the
  second outcome is the first (the same exception, or a frame with the same columns
  and the same rows in the same order); the second run does not change the frame the
  first returned; and a run on an object that holds the same table in any other heap
  has the same outcome. The outcome is that of the function \<open>pp\<close>.
\<close>

theorem pp_run_twice:
  assumes "table_at s a = Some df" and "table_at t b = Some df"
  shows "\<exists>s1 r1 s2 r2 t1 q1.
           pp_run s a = Some (s1, r1) \<and> pp_run s1 a = Some (s2, r2) \<and>
           pp_run t b = Some (t1, q1) \<and>
           table_at s1 a = Some df \<and> table_at s2 a = Some df \<and>
           outcome s2 r2 = outcome s1 r1 \<and> outcome s2 r1 = outcome s1 r1 \<and>
           outcome t1 q1 = outcome s1 r1 \<and>
           outcome s1 r1 = (case pp df of Inl x \<Rightarrow> Inl x | Inr out \<Rightarrow> Inr (Some (frame_of out)))"
proof -
  from pp_run_outcome[OF assms(1)] obtain s1 r1 where
    1: "pp_run s a = Some (s1, r1)" "prefix s s1" "\<forall>f. r1 = Inr f \<longrightarrow> f < length s1"
       "outcome s1 r1 = (case pp df of Inl x \<Rightarrow> Inl x | Inr out \<Rightarrow> Inr (Some (frame_of out)))"
    by blast
  have a1: "table_at s1 a = Some df" by (rule table_at_prefix[OF assms(1) 1(2)])
  from pp_run_outcome[OF a1] obtain s2 r2 where
    2: "pp_run s1 a = Some (s2, r2)" "prefix s1 s2"
       "outcome s2 r2 = (case pp df of Inl x \<Rightarrow> Inl x | Inr out \<Rightarrow> Inr (Some (frame_of out)))"
    by blast
  have a2: "table_at s2 a = Some df" by (rule table_at_prefix[OF a1 2(2)])
  from pp_run_outcome[OF assms(2)] obtain t1 q1 where
    3: "pp_run t b = Some (t1, q1)"
       "outcome t1 q1 = (case pp df of Inl x \<Rightarrow> Inl x | Inr out \<Rightarrow> Inr (Some (frame_of out)))"
    by blast
  have 4: "outcome s2 r1 = outcome s1 r1" by (rule outcome_prefix[OF 2(2) 1(3)])
  have 5: "outcome s2 r2 = outcome s1 r1" using 1(4) 2(3) by simp
  have 6: "outcome t1 q1 = outcome s1 r1" using 1(4) 3(2) by simp
  from 1(1) 2(1) 3(1) a1 a2 5 4 6 1(4) show ?thesis
    by (intro exI[of _ s1] exI[of _ r1] exI[of _ s2] exI[of _ r2] exI[of _ t1] exI[of _ q1] conjI)
qed

theorem pp_run_twice_witness:
  "table_at two_tables 1 = Some crossed_table \<and>
   table_at [Table crossed_table] 0 = Some crossed_table \<and>
   pp crossed_table = Inr crossed_result \<and>
   (\<exists>s1 r1 s2 r2 t1 q1.
      pp_run two_tables 1 = Some (s1, r1) \<and> pp_run s1 1 = Some (s2, r2) \<and>
      pp_run [Table crossed_table] 0 = Some (t1, q1) \<and>
      table_at s2 1 = Some crossed_table \<and>
      outcome s1 r1 = Inr (Some (frame_of crossed_result)) \<and>
      outcome s2 r2 = Inr (Some (frame_of crossed_result)) \<and>
      outcome s2 r1 = Inr (Some (frame_of crossed_result)) \<and>
      outcome t1 q1 = Inr (Some (frame_of crossed_result)))"
proof -
  have 1: "table_at two_tables 1 = Some crossed_table"
    by (simp add: two_tables_def table_at_def lookup_def)
  have 2: "table_at [Table crossed_table] 0 = Some crossed_table"
    by (simp add: table_at_def lookup_def)
  have 3: "pp crossed_table = Inr crossed_result"
    by (simp add: crossed_table_def crossed_result_def table_defs pp_defs)
  from pp_run_twice[OF 1 2] obtain s1 r1 s2 r2 t1 q1 where
    r: "pp_run two_tables 1 = Some (s1, r1)" "pp_run s1 1 = Some (s2, r2)"
       "pp_run [Table crossed_table] 0 = Some (t1, q1)"
       "table_at s2 1 = Some crossed_table"
       "outcome s2 r2 = outcome s1 r1" "outcome s2 r1 = outcome s1 r1"
       "outcome t1 q1 = outcome s1 r1"
       "outcome s1 r1 = (case pp crossed_table of Inl x \<Rightarrow> Inl x
                          | Inr out \<Rightarrow> Inr (Some (frame_of out)))"
    by (elim exE conjE)
  from r(8) 3 have o: "outcome s1 r1 = Inr (Some (frame_of crossed_result))" by simp
  from r o have "\<exists>s1 r1 s2 r2 t1 q1.
      pp_run two_tables 1 = Some (s1, r1) \<and> pp_run s1 1 = Some (s2, r2) \<and>
      pp_run [Table crossed_table] 0 = Some (t1, q1) \<and>
      table_at s2 1 = Some crossed_table \<and>
      outcome s1 r1 = Inr (Some (frame_of crossed_result)) \<and>
      outcome s2 r2 = Inr (Some (frame_of crossed_result)) \<and>
      outcome s2 r1 = Inr (Some (frame_of crossed_result)) \<and>
      outcome t1 q1 = Inr (Some (frame_of crossed_result))"
    by (intro exI[of _ s1] exI[of _ r1] exI[of _ s2] exI[of _ r2] exI[of _ t1] exI[of _ q1]) simp
  with 1 2 3 show ?thesis by (intro conjI)
qed

section \<open>The grouped maximum\<close>

lemma groupby_max_cell:
  assumes "(k, cs) \<in> set (groupby_max effs rs)" "e \<in> set effs"
  shows "map_of cs e =
     Some (nanmax (map (\<lambda>r. to_float (cell_of e r)) (filter (\<lambda>r. key3_of r = k) rs)))"
  using groupby_max_row[OF assms(1)] assms(2) by (simp add: map_of_column)

text \<open>
  Claim C4. A result of \<open>pp\<close> is the sorted grouped harmonic mean of the completion of
  the grouped maximum of the input rows. The grouped maximum has one row per distinct
  (problem, platform, application) of the input; in each efficiency column of the table
  the row holds the maximum of the numbers measured for the key, nulls left out, and
  null when every row of the key is null.
\<close>

theorem pp_keeps_group_maximum:
  "(\<forall>out. pp df = Inr out \<longrightarrow>
      (\<exists>ps. groupby_hmean (efficiencies df)
               (add_did_not_run (groupby_max (efficiencies df) (rows df))) = Inr ps \<and>
            pp_rows out = sort_by_app_order ps (unique (map application (rows df))))) \<and>
   distinct (map fst (groupby_max (efficiencies df) (rows df))) \<and>
   set (map fst (groupby_max (efficiencies df) (rows df))) = key3_of ` set (rows df) \<and>
   (\<forall>k cs e. (k, cs) \<in> set (groupby_max (efficiencies df) (rows df)) \<and>
       eff_name e \<in> set (columns df) \<longrightarrow>
       (\<forall>v. max_of_key e k (rows df) v \<longrightarrow> map_of cs e = Some (Some v)) \<and>
       (all_null e k (rows df) \<longrightarrow> map_of cs e = Some None))"
proof (intro conjI allI impI)
  fix out assume "pp df = Inr out"
  then show "\<exists>ps. groupby_hmean (efficiencies df)
               (add_did_not_run (groupby_max (efficiencies df) (rows df))) = Inr ps \<and>
            pp_rows out = sort_by_app_order ps (unique (map application (rows df)))"
    by (auto simp: pp_def Let_def split: sum.splits if_splits)
next
  show "distinct (map fst (groupby_max (efficiencies df) (rows df)))"
    by (rule groupby_max_distinct)
  show "set (map fst (groupby_max (efficiencies df) (rows df))) = key3_of ` set (rows df)"
    using groupby_max_set_keys[of "efficiencies df" "rows df"] by simp
next
  fix k cs e v
  assume a: "(k, cs) \<in> set (groupby_max (efficiencies df) (rows df)) \<and> eff_name e \<in> set (columns df)"
    and m: "max_of_key e k (rows df) v"
  from a have g: "(k, cs) \<in> set (groupby_max (efficiencies df) (rows df))"
    and e: "e \<in> set (efficiencies df)" by (simp_all add: efficiencies_iff)
  from groupby_max_cell[OF g e] group_max_is_max[OF m]
  show "map_of cs e = Some (Some v)" by simp
next
  fix k cs e
  assume a: "(k, cs) \<in> set (groupby_max (efficiencies df) (rows df)) \<and> eff_name e \<in> set (columns df)"
    and n: "all_null e k (rows df)"
  from a have g: "(k, cs) \<in> set (groupby_max (efficiencies df) (rows df))"
    and e: "e \<in> set (efficiencies df)" by (simp_all add: efficiencies_iff)
  from groupby_max_cell[OF g e] group_max_null[OF n]
  show "map_of cs e = Some None" by simp
qed

theorem pp_keeps_group_maximum_witness:
  "valid_table single_table \<and> eff_name AppEff \<in> set (columns single_table) \<and>
   groupby_max (efficiencies single_table) (rows single_table) =
     [((''P1'', ''A'', ''X''), [(AppEff, Some (6/10))]), ((''P1'', ''A'', ''Y''), [(AppEff, None)])] \<and>
   max_of_key AppEff (''P1'', ''A'', ''X'') (rows single_table) (6/10) \<and>
   all_null AppEff (''P1'', ''A'', ''Y'') (rows single_table) \<and>
   distinct (map fst (groupby_max (efficiencies single_table) (rows single_table))) \<and>
   (\<exists>cs. ((''P1'', ''A'', ''X''), cs) \<in> set (groupby_max (efficiencies single_table) (rows single_table)) \<and>
      map_of cs AppEff = Some (Some (6/10))) \<and>
   (\<exists>cs. ((''P1'', ''A'', ''Y''), cs) \<in> set (groupby_max (efficiencies single_table) (rows single_table)) \<and>
      map_of cs AppEff = Some None) \<and>
   (\<exists>out ps. pp single_table = Inr out \<and>
      groupby_hmean (efficiencies single_table)
        (add_did_not_run (groupby_max (efficiencies single_table) (rows single_table))) = Inr ps \<and>
      pp_rows out = sort_by_app_order ps (unique (map application (rows single_table))))"
proof -
  let ?G = "groupby_max (efficiencies single_table) (rows single_table)"
  have 1: "valid_table single_table" by (simp add: single_table_def table_defs)
  have 2: "?G =
     [((''P1'', ''A'', ''X''), [(AppEff, Some (6/10))]), ((''P1'', ''A'', ''Y''), [(AppEff, None)])]"
    by (simp add: single_table_def table_defs pp_defs)
  have 3: "max_of_key AppEff (''P1'', ''A'', ''X'') (rows single_table) (6/10)"
    by (simp add: single_table_def table_defs key3_of_def max_of_key_def)
  have 4: "all_null AppEff (''P1'', ''A'', ''Y'') (rows single_table)"
    by (simp add: single_table_def table_defs key3_of_def all_null_def)
  have 5: "eff_name AppEff \<in> set (columns single_table)"
    by (simp add: single_table_def table_defs)
  note t = pp_keeps_group_maximum[of single_table]
  from t have d: "distinct (map fst ?G)"
    by (elim conjE)
  from t have c: "\<forall>k cs e. (k, cs) \<in> set ?G \<and> eff_name e \<in> set (columns single_table) \<longrightarrow>
         (\<forall>v. max_of_key e k (rows single_table) v \<longrightarrow> map_of cs e = Some (Some v)) \<and>
         (all_null e k (rows single_table) \<longrightarrow> map_of cs e = Some None)"
    by (elim conjE)
  have x: "((''P1'', ''A'', ''X''), [(AppEff, Some (6/10))]) \<in> set ?G"
    and y: "((''P1'', ''A'', ''Y''), [(AppEff, None)]) \<in> set ?G"
    unfolding 2 by simp_all
  from c x 3 5 have "map_of [(AppEff, Some (6/10 :: real))] AppEff = Some (Some (6/10))"
    by blast
  with x have 6: "\<exists>cs. ((''P1'', ''A'', ''X''), cs) \<in> set ?G \<and> map_of cs AppEff = Some (Some (6/10))"
    by blast
  from c y 4 5 have "map_of [(AppEff, None :: real option)] AppEff = Some None"
    by blast
  with y have 7: "\<exists>cs. ((''P1'', ''A'', ''Y''), cs) \<in> set ?G \<and> map_of cs AppEff = Some None"
    by blast
  from t have p: "\<forall>out. pp single_table = Inr out \<longrightarrow>
      (\<exists>ps. groupby_hmean (efficiencies single_table) (add_did_not_run ?G) = Inr ps \<and>
            pp_rows out = sort_by_app_order ps (unique (map application (rows single_table))))"
    by (elim conjE)
  have o: "pp single_table = Inr (projr (pp single_table))" by (rule pp_valid_Inr[OF 1])
  from p[rule_format, OF o] obtain ps where
    "groupby_hmean (efficiencies single_table) (add_did_not_run ?G) = Inr ps"
    "pp_rows (projr (pp single_table)) =
       sort_by_app_order ps (unique (map application (rows single_table)))"
    by (elim exE conjE)
  with o have 8: "\<exists>out ps. pp single_table = Inr out \<and>
      groupby_hmean (efficiencies single_table) (add_did_not_run ?G) = Inr ps \<and>
      pp_rows out = sort_by_app_order ps (unique (map application (rows single_table)))"
    by (intro exI conjI)
  from 1 5 2 3 4 d 6 7 8 show ?thesis by (intro conjI)
qed

end
